theory Spec2Isabelle
  imports Complex_Main "HOL-Library.Word"
begin

section \<open>Conventions of the embedding\<close>

text \<open>
  The development embeds \<^verbatim>\<open>BettyAudioApp.hpp\<close>.

  \<^item> The control values (the parameters, the bias and the input of the gate) are
    reals: \<^verbatim>\<open>BiasedScale\<close>, the smoothers and the gate compute with exact
    arithmetic.
  \<^item> \<^verbatim>\<open>MapToSeries\<close> and the audio path of \<^verbatim>\<open>ProcessInline\<close> compute in IEEE-754
    single precision: a finite result is rounded to the nearest binary32 value, ties
    to even (\<open>fl32\<close>), and an audio sample is a value of the type \<open>float\<close>, which has
    NaN and the two infinities. The two zeros are not distinguished.
  \<^item> \<^verbatim>\<open>size_t\<close> is a 32-bit word (the target is a 32-bit microcontroller), so
    \<^verbatim>\<open>counter_++\<close> wraps around.
  \<^item> A \<^verbatim>\<open>std::vector<float>\<close> is a \<^typ>\<open>real list\<close>.
  \<^item> The classes declared in headers that are not part of the file
    (\<^verbatim>\<open>OnePoleSmoother\<close>, \<^verbatim>\<open>maxiDelayline\<close>, \<^verbatim>\<open>maxiDCBlocker\<close>,
    \<^verbatim>\<open>daisysp::PitchShifter\<close>, \<^verbatim>\<open>daisysp::Autowah\<close>) are parameters: an
    abstract state type and one function for each member function that is called.
\<close>

section \<open>HysteresisSmoother\<close>

type_synonym size_t = "32 word"

record 'sm HysteresisSmoother =
  sample_rate_' :: real
  hysteresis_time_ms_' :: real
  smoother_' :: 'sm
  current_flag_' :: bool
  pending_flag_' :: bool
  counter_' :: size_t
  hysteresis_samples_' :: size_t

text \<open>
  \<^verbatim>\<open>static_cast<size_t>\<close> of a float: the fractional part is discarded. (The conversion
  of a negative value or of one that does not fit is undefined in C++; the model
  gives 0 for a negative value and reduces modulo \<open>2 ^ 32\<close>.)
\<close>

definition size_t_of_float :: "real \<Rightarrow> size_t" where
  "size_t_of_float x = word_of_nat (nat \<lfloor>x\<rfloor>)"

text \<open>
  The constructor. \<open>mk\<close> stands for the constructor of \<^verbatim>\<open>OnePoleSmoother<1>\<close>, called
  with the smoothing time and the sample rate.
\<close>

definition HysteresisSmoother_init ::
  "(real \<Rightarrow> real \<Rightarrow> 'sm) \<Rightarrow> real \<Rightarrow> real \<Rightarrow> real \<Rightarrow> 'sm HysteresisSmoother" where
  "HysteresisSmoother_init mk sample_rate smoothing_time_ms hysteresis_time_ms =
     \<lparr> sample_rate_' = sample_rate,
       hysteresis_time_ms_' = hysteresis_time_ms,
       smoother_' = mk smoothing_time_ms sample_rate,
       current_flag_' = False,
       pending_flag_' = False,
       counter_' = 0,
       hysteresis_samples_' = size_t_of_float (hysteresis_time_ms * 0.001 * sample_rate) \<rparr>"

text \<open>
  \<^verbatim>\<open>bool Process(float x)\<close>. \<open>sm\<close> stands for \<^verbatim>\<open>OnePoleSmoother<1>::Process\<close>: from
  the smoother's state and the input it gives the new state and the smoothed value.
\<close>

definition Process ::
  "('sm \<Rightarrow> real \<Rightarrow> 'sm \<times> real) \<Rightarrow> real \<Rightarrow> 'sm HysteresisSmoother
     \<Rightarrow> 'sm HysteresisSmoother \<times> bool" where
  "Process sm x g =
     (let (s', smoothed) = sm (smoother_' g) x;
          g1 = g\<lparr>smoother_' := s'\<rparr>;
          target_flag = (smoothed \<ge> 0.5);
          g2 =
            (if target_flag \<noteq> current_flag_' g1 then
               (if target_flag = pending_flag_' g1 then
                  (let g' = g1\<lparr>counter_' := counter_' g1 + 1\<rparr> in
                   if counter_' g' \<ge> hysteresis_samples_' g'
                   then g'\<lparr>current_flag_' := target_flag, counter_' := 0\<rparr>
                   else g')
                else g1\<lparr>pending_flag_' := target_flag, counter_' := 1\<rparr>)
             else g1\<lparr>counter_' := 0, pending_flag_' := current_flag_' g1\<rparr>)
      in (g2, current_flag_' g2))"

text \<open>The state after a sequence of calls, one for each input in order.\<close>

primrec Process_calls ::
  "('sm \<Rightarrow> real \<Rightarrow> 'sm \<times> real) \<Rightarrow> 'sm HysteresisSmoother \<Rightarrow> real list
     \<Rightarrow> 'sm HysteresisSmoother" where
  "Process_calls sm g [] = g"
| "Process_calls sm g (x # xs) = Process_calls sm (fst (Process sm x g)) xs"

text \<open>The gate after the first \<open>n\<close> calls of a sequence.\<close>

definition gate_after ::
  "('sm \<Rightarrow> real \<Rightarrow> 'sm \<times> real) \<Rightarrow> 'sm HysteresisSmoother \<Rightarrow> real list \<Rightarrow> nat
     \<Rightarrow> 'sm HysteresisSmoother" where
  "gate_after sm g xs n = Process_calls sm g (take n xs)"

text \<open>The three stored values after the first \<open>n\<close> calls of a sequence.\<close>

abbreviation cur_at ::
  "('sm \<Rightarrow> real \<Rightarrow> 'sm \<times> real) \<Rightarrow> 'sm HysteresisSmoother \<Rightarrow> real list \<Rightarrow> nat \<Rightarrow> bool" where
  "cur_at sm g xs n \<equiv> current_flag_' (gate_after sm g xs n)"

abbreviation pend_at ::
  "('sm \<Rightarrow> real \<Rightarrow> 'sm \<times> real) \<Rightarrow> 'sm HysteresisSmoother \<Rightarrow> real list \<Rightarrow> nat \<Rightarrow> bool" where
  "pend_at sm g xs n \<equiv> pending_flag_' (gate_after sm g xs n)"

abbreviation cnt_at ::
  "('sm \<Rightarrow> real \<Rightarrow> 'sm \<times> real) \<Rightarrow> 'sm HysteresisSmoother \<Rightarrow> real list \<Rightarrow> nat \<Rightarrow> size_t" where
  "cnt_at sm g xs n \<equiv> counter_' (gate_after sm g xs n)"

text \<open>
  The value of \<^verbatim>\<open>target_flag\<close> in call number \<open>n\<close> (counted from 0) of a sequence:
  the smoothed input of that call, thresholded at 0.5.
\<close>

definition target_at ::
  "('sm \<Rightarrow> real \<Rightarrow> 'sm \<times> real) \<Rightarrow> 'sm HysteresisSmoother \<Rightarrow> real list \<Rightarrow> nat \<Rightarrow> bool" where
  "target_at sm g xs n = (snd (sm (smoother_' (gate_after sm g xs n)) (xs ! n)) \<ge> 0.5)"

text \<open>
  The transition rule in the words of the specification, on the three stored values,
  given the thresholded smoothed input: (1) target equal to current, (2) target equal
  to pending, (3) target different from both.
\<close>

definition gate_rule :: "size_t \<Rightarrow> bool \<Rightarrow> bool \<times> bool \<times> size_t \<Rightarrow> bool \<times> bool \<times> size_t" where
  "gate_rule hysteresis_samples target cpc =
     (case cpc of (current, pending, counter) \<Rightarrow>
        if target = current then (current, current, 0)
        else if target = pending then
          (if counter + 1 \<ge> hysteresis_samples then (target, pending, 0)
           else (current, pending, counter + 1))
        else (current, target, 1))"

text \<open>
  A gate as the constructor leaves it, as far as the three stored values go.
\<close>

definition initial_gate :: "'sm HysteresisSmoother \<Rightarrow> bool" where
  "initial_gate g =
     (current_flag_' g = False \<and> pending_flag_' g = False \<and> counter_' g = 0)"

text \<open>
  The invariant of a run that starts with \<open>pending = current\<close> and \<open>counter = 0\<close>:
  after \<open>n\<close> calls the counter is 0 exactly when no other candidate is pending;
  otherwise it has counted the last calls, in all of which the thresholded input was
  the pending candidate and the current flag stayed as it is.
\<close>

definition dwell_inv ::
  "('sm \<Rightarrow> real \<Rightarrow> 'sm \<times> real) \<Rightarrow> 'sm HysteresisSmoother \<Rightarrow> real list \<Rightarrow> nat \<Rightarrow> bool" where
  "dwell_inv sm g xs n \<longleftrightarrow>
     (pend_at sm g xs n = cur_at sm g xs n \<longrightarrow> cnt_at sm g xs n = 0) \<and>
     (pend_at sm g xs n \<noteq> cur_at sm g xs n \<longrightarrow>
        cnt_at sm g xs n \<noteq> 0 \<and>
        (cnt_at sm g xs n < hysteresis_samples_' g \<or> cnt_at sm g xs n = 1) \<and>
        unat (cnt_at sm g xs n) \<le> n \<and>
        (\<forall>j. n - unat (cnt_at sm g xs n) \<le> j \<and> j < n \<longrightarrow>
             target_at sm g xs j = pend_at sm g xs n) \<and>
        (\<forall>j. n - unat (cnt_at sm g xs n) \<le> j \<and> j \<le> n \<longrightarrow>
             cur_at sm g xs j = cur_at sm g xs n))"

section \<open>Single precision\<close>

text \<open>Rounding to the nearest integer, ties to the even one.\<close>

definition rne :: "real \<Rightarrow> int" where
  "rne x = (let f = \<lfloor>x\<rfloor>; r = x - of_int f
            in if r < 1 / 2 then f else if r > 1 / 2 then f + 1
               else if even f then f else f + 1)"

text \<open>
  The binary32 value nearest to a real, without the overflow to infinity. The
  significand has 24 bits, so a value with the exponent \<open>e\<close> (from \<open>2 ^ e\<close> up to
  \<open>2 ^ (e + 1)\<close>) is a multiple of \<open>2 ^ (e - 23)\<close>; the least exponent is \<open>-126\<close>, and
  below \<open>2 ^ -126\<close> the values are the multiples of \<open>2 ^ -149\<close>.
\<close>

definition fl32_exponent :: "real \<Rightarrow> int" where
  "fl32_exponent x = max (- 126) \<lfloor>log 2 \<bar>x\<bar>\<rfloor>"

definition fl32 :: "real \<Rightarrow> real" where
  "fl32 x = (if x = 0 then 0
             else (let q = 2 powi (fl32_exponent x - 23) in of_int (rne (x / q)) * q))"

datatype float = NaN | NInf | Finite real | PInf

text \<open>The greatest finite binary32 value, and the result of an operation as a \<open>float\<close>.\<close>

definition max_float :: real where
  "max_float = (2 - 1 / 2 ^ 23) * 2 ^ 127"

definition round_float :: "real \<Rightarrow> float" where
  "round_float x =
     (let y = fl32 x
      in if y > max_float then PInf else if y < - max_float then NInf else Finite y)"

text \<open>The comparison \<^verbatim>\<open><\<close>: false whenever an operand is NaN.\<close>

fun flt :: "float \<Rightarrow> float \<Rightarrow> bool" where
  "flt NaN _ = False"
| "flt _ NaN = False"
| "flt _ NInf = False"
| "flt NInf _ = True"
| "flt PInf _ = False"
| "flt (Finite a) PInf = True"
| "flt (Finite a) (Finite b) = (a < b)"

text \<open>
  \<^verbatim>\<open>fminf\<close> and \<^verbatim>\<open>fmaxf\<close> of the C library: if one argument is NaN, the other one
  is returned.
\<close>

definition fminf :: "float \<Rightarrow> float \<Rightarrow> float" where
  "fminf a b = (if a = NaN then b else if b = NaN then a else if flt b a then b else a)"

definition fmaxf :: "float \<Rightarrow> float \<Rightarrow> float" where
  "fmaxf a b = (if a = NaN then b else if b = NaN then a else if flt a b then b else a)"

text \<open>Addition and multiplication.\<close>

fun fadd :: "float \<Rightarrow> float \<Rightarrow> float" where
  "fadd NaN _ = NaN"
| "fadd _ NaN = NaN"
| "fadd (Finite a) (Finite b) = round_float (a + b)"
| "fadd PInf NInf = NaN"
| "fadd NInf PInf = NaN"
| "fadd PInf _ = PInf"
| "fadd _ PInf = PInf"
| "fadd NInf _ = NInf"
| "fadd _ NInf = NInf"

definition fsgn :: "float \<Rightarrow> real" where
  "fsgn x = (case x of NaN \<Rightarrow> 0 | NInf \<Rightarrow> - 1 | PInf \<Rightarrow> 1 | Finite a \<Rightarrow> sgn a)"

fun fmul :: "float \<Rightarrow> float \<Rightarrow> float" where
  "fmul NaN _ = NaN"
| "fmul _ NaN = NaN"
| "fmul (Finite a) (Finite b) = round_float (a * b)"
| "fmul x y =
     (if fsgn x * fsgn y = 0 then NaN else if fsgn x * fsgn y > 0 then PInf else NInf)"

text \<open>
  \<^verbatim>\<open>tanhf\<close> of the C library, taken as correctly rounded: the hyperbolic tangent of a
  finite argument rounded to binary32, \<open>1\<close> and \<open>-1\<close> at the infinities, NaN for NaN.
\<close>

fun tanhf :: "float \<Rightarrow> float" where
  "tanhf NaN = NaN"
| "tanhf PInf = Finite 1"
| "tanhf NInf = Finite (- 1)"
| "tanhf (Finite x) = Finite (fl32 (tanh x))"

section \<open>Value mapping\<close>

text \<open>
  The clamp \<^verbatim>\<open>fmaxf(0.0f, fminf(1.0f, value))\<close> of \<^verbatim>\<open>MapToSeries\<close>. The result is
  always finite and in \<open>[0, 1]\<close>: for NaN, \<^verbatim>\<open>fminf\<close> returns its other argument, 1.
\<close>

definition clamp01 :: "float \<Rightarrow> real" where
  "clamp01 value =
     (case fmaxf (Finite 0) (fminf (Finite 1) value) of Finite v \<Rightarrow> v | _ \<Rightarrow> 0)"

text \<open>
  \<^verbatim>\<open>MapToSeries\<close>. The entries of the series are returned as they are, so their type
  is left open. The size of the vector is converted to \<^verbatim>\<open>float\<close>, and both
  divisions are rounded. The index and the size are natural numbers: the quotient
  converted to \<^verbatim>\<open>size_t\<close> is not negative and stays below \<open>2 ^ 32\<close> for every
  vector whose size is a \<^verbatim>\<open>size_t\<close>.
\<close>

definition MapToSeries :: "float \<Rightarrow> 'a::zero list \<Rightarrow> 'a" where
  "MapToSeries value series =
     (if series = [] then 0
      else if length series = 1 then series ! 0
      else
        (let value = clamp01 value;
             segment_size = fl32 (1 / fl32 (real (length series)));
             index = nat \<lfloor>fl32 (value / segment_size)\<rfloor>;
             index = (if index \<ge> length series then length series - 1 else index)
         in series ! index))"

definition BiasedScale :: "real \<Rightarrow> real \<Rightarrow> real" where
  "BiasedScale value bias =
     (let value = max 0 (min 1 value);
          bias = max 0 (min 1 bias);
          (range_min, range_max) =
            (if bias \<le> 0.5 then (0, bias + 0.5) else (bias - 0.5, 1))
      in range_min + value * (range_max - range_min))"


section \<open>BettyAudioApp\<close>

record ParamDef =
  which_shift :: real
  shift :: real
  shift2 :: real
  dlyfeedback :: real
  wahlevel :: real
  wahdrywet :: real
  wahwah :: real

text \<open>\<^verbatim>\<open>sizeof(ParamDef) / sizeof(float)\<close>: the struct has seven \<^verbatim>\<open>float\<close> members.\<close>

definition kN_Params :: nat where
  "kN_Params = 7"

text \<open>
  The union \<^verbatim>\<open>param_u\<close>: the array \<^verbatim>\<open>v\<close> of \<^verbatim>\<open>kN_Params\<close> floats read as a
  \<^verbatim>\<open>ParamDef\<close>, member by member in the order of declaration.
\<close>

definition param_u :: "real list \<Rightarrow> ParamDef" where
  "param_u v =
     \<lparr> which_shift = v ! 0, shift = v ! 1, shift2 = v ! 2, dlyfeedback = v ! 3,
       wahlevel = v ! 4, wahdrywet = v ! 5, wahwah = v ! 6 \<rparr>"

record stereosample_t =
  L :: float
  R :: float

datatype error = OutOfBoundsRead

text \<open>
  The member functions of the classes that are declared elsewhere, and the constant
  \<^verbatim>\<open>kSampleRate\<close> of \<^verbatim>\<open>PicoDefs.hpp\<close>. Each function takes the object's state and
  the arguments of the call and gives the new state, with the returned value if there
  is one. \<open>smoother_Process\<close> is the call \<^verbatim>\<open>Process(const float*, float*)\<close> of
  \<^verbatim>\<open>OnePoleSmoother<kN_Params>\<close>, from the raw values it reads to the smoothed values it
  writes; \<open>smoother_Process1\<close> is the call of \<^verbatim>\<open>OnePoleSmoother<1>\<close> on one value.
  The stages of the audio path take and return audio samples.
\<close>

record ('sm, 'dl, 'wah, 'ps, 'dcb) dsp =
  kSampleRate :: real
  smoother_Process :: "'sm \<Rightarrow> real list \<Rightarrow> 'sm \<times> real list"
  smoother_Process1 :: "'sm \<Rightarrow> real \<Rightarrow> 'sm \<times> real"
  dl_play :: "'dl \<Rightarrow> float \<Rightarrow> size_t \<Rightarrow> real \<Rightarrow> 'dl \<times> float"
  wah_SetLevel :: "'wah \<Rightarrow> real \<Rightarrow> 'wah"
  wah_SetDryWet :: "'wah \<Rightarrow> real \<Rightarrow> 'wah"
  wah_SetWah :: "'wah \<Rightarrow> real \<Rightarrow> 'wah"
  wah_Process :: "'wah \<Rightarrow> float \<Rightarrow> 'wah \<times> float"
  ps_SetTransposition :: "'ps \<Rightarrow> real \<Rightarrow> 'ps"
  ps_Process :: "'ps \<Rightarrow> float \<Rightarrow> 'ps \<times> float"
  dcb_play :: "'dcb \<Rightarrow> float \<Rightarrow> real \<Rightarrow> 'dcb \<times> float"

record ('sm, 'dl, 'wah, 'ps, 'dcb) BettyAudioApp =
  neuralNetOutputs :: "real list"
  dcb :: 'dcb
  pitchshifter_' :: 'ps
  pitchshifter2_' :: 'ps
  wah_' :: 'wah
  dl_' :: 'dl
  smoother :: 'sm
  smoother_pitchshift_switch :: "'sm HysteresisSmoother"
  pitchbias_smoother :: 'sm

text \<open>
  The constructor. \<open>mk\<close> stands for the constructor of \<^verbatim>\<open>OnePoleSmoother\<close>, and
  \<open>dcb0\<close>, \<open>ps0\<close>, \<open>wah0\<close> and \<open>dl0\<close> for the default-constructed members.
\<close>

definition BettyAudioApp_init ::
  "('sm, 'dl, 'wah, 'ps, 'dcb) dsp \<Rightarrow> (real \<Rightarrow> real \<Rightarrow> 'sm) \<Rightarrow> 'dcb \<Rightarrow> 'ps \<Rightarrow> 'wah \<Rightarrow> 'dl
     \<Rightarrow> ('sm, 'dl, 'wah, 'ps, 'dcb) BettyAudioApp" where
  "BettyAudioApp_init E mk dcb0 ps0 wah0 dl0 =
     \<lparr> neuralNetOutputs = replicate kN_Params 0,
       dcb = dcb0,
       pitchshifter_' = ps0,
       pitchshifter2_' = ps0,
       wah_' = wah0,
       dl_' = dl0,
       smoother = mk 150 (kSampleRate E),
       smoother_pitchshift_switch = HysteresisSmoother_init mk (kSampleRate E) 400 150,
       pitchbias_smoother = mk 150 (kSampleRate E) \<rparr>"

definition kDelaySeconds :: real where
  "kDelaySeconds = 1"

definition kDLineLength :: "('sm, 'dl, 'wah, 'ps, 'dcb) dsp \<Rightarrow> size_t" where
  "kDLineLength E = size_t_of_float (kDelaySeconds * kSampleRate E)"

definition kDLineTap :: "('sm, 'dl, 'wah, 'ps, 'dcb) dsp \<Rightarrow> size_t" where
  "kDLineTap E = kDLineLength E - 2"

text \<open>
  Modelled from the spec: \<^verbatim>\<open>OnePoleSmoother<N>::Process(x_ptr, y_ptr)\<close> is declared in
  \<^verbatim>\<open>OnePoleSmoother.hpp\<close>, which is not part of the file. By the specification the
  smoother has \<open>N\<close> independent channels, each filtering its own raw input, so the call
  reads \<open>N\<close> floats from \<^verbatim>\<open>x_ptr\<close> on. \<open>read_floats buf n\<close> is that read from the start
  of the buffer of a vector: reading past the end of the buffer is undefined behaviour
  in C++ and an error here.
\<close>

definition read_floats :: "real list \<Rightarrow> nat \<Rightarrow> error + real list" where
  "read_floats buf n = (if n \<le> length buf then Inr (take n buf) else Inl OutOfBoundsRead)"

text \<open>
  \<^verbatim>\<open>ProcessInline\<close>, in the four parts of the source. First the control values:
  the smoothed bias, the smoothed parameters and the output of the gate.
  \<open>pitch_bias\<close> is the value that \<^verbatim>\<open>READ_VOLATILE(pitch_bias)\<close> yields in this call.
  The result holds the new states of the two smoothers and of the gate, the smoothed
  parameters and the gate's output \<^verbatim>\<open>smoothed_switch\<close>.
\<close>

definition control_values ::
  "('sm, 'dl, 'wah, 'ps, 'dcb) dsp \<Rightarrow> real \<Rightarrow> ('sm, 'dl, 'wah, 'ps, 'dcb) BettyAudioApp
     \<Rightarrow> error + ('sm \<times> 'sm \<times> ParamDef \<times> 'sm HysteresisSmoother \<times> bool)" where
  "control_values E pitch_bias st =
     (let (pbs', raw_pitch_bias) = smoother_Process1 E (pitchbias_smoother st) pitch_bias
      in case read_floats (neuralNetOutputs st) kN_Params of
           Inl e \<Rightarrow> Inl e
         | Inr raw \<Rightarrow>
            (let (sm', v) = smoother_Process E (smoother st) raw;
                 p = param_u v;
                 biased_switch = BiasedScale (which_shift p) raw_pitch_bias;
                 (gate', smoothed_switch) =
                    Process (smoother_Process1 E) biased_switch (smoother_pitchshift_switch st)
             in Inr (pbs', sm', p, gate', smoothed_switch)))"

text \<open>
  The branch on the gate's output: the two pitch shifters after the calls of
  \<^verbatim>\<open>SetTransposition\<close>, and the weights \<^verbatim>\<open>mix_pitch1\<close> and \<^verbatim>\<open>mix_pitch2\<close>.
\<close>

definition pitch_mode ::
  "('sm, 'dl, 'wah, 'ps, 'dcb) dsp \<Rightarrow> bool \<Rightarrow> ParamDef \<Rightarrow> 'ps \<Rightarrow> 'ps
     \<Rightarrow> 'ps \<times> 'ps \<times> real \<times> real" where
  "pitch_mode E smoothed_switch p ps1 ps2 =
     (if smoothed_switch then
        (let pitchshift_transpose = MapToSeries (Finite (shift p)) [2, 5, 7, 10, 12]
         in (ps_SetTransposition E ps1 pitchshift_transpose, ps2, 1, 0))
      else
        (let third_down = (if shift p > 0.5 then - 9 else - 8);
             fifth_down = (if shift2 p > 0.5 then - 7 else - 7)
         in (ps_SetTransposition E ps1 third_down, ps_SetTransposition E ps2 fifth_down,
             0.5, 0.5)))"

text \<open>The three settings of the auto-wah.\<close>

definition wah_settings ::
  "('sm, 'dl, 'wah, 'ps, 'dcb) dsp \<Rightarrow> ParamDef \<Rightarrow> 'wah \<Rightarrow> 'wah" where
  "wah_settings E p wah =
     (let wah1 = wah_SetLevel E wah (wahlevel p);
          wah2 = wah_SetDryWet E wah1 (wahdrywet p * 100);
          wah3 = wah_SetWah E wah2 (wahwah p)
      in wah3)"

text \<open>
  The signal path up to the soft clip: the new states of the five stages and the
  value of \<^verbatim>\<open>y\<close> that is handed to \<^verbatim>\<open>tanhf\<close>.
\<close>

definition mono_mix ::
  "('sm, 'dl, 'wah, 'ps, 'dcb) dsp \<Rightarrow> stereosample_t \<Rightarrow> 'dl \<Rightarrow> 'wah \<Rightarrow> 'ps \<Rightarrow> 'ps
     \<Rightarrow> real \<Rightarrow> real \<Rightarrow> 'dcb \<Rightarrow> 'dl \<times> 'wah \<times> 'ps \<times> 'ps \<times> 'dcb \<times> float" where
  "mono_mix E x dl wah ps1 ps2 mix_pitch1 mix_pitch2 dc =
     (let y = fadd (L x) (R x);
          (dl', dly) = dl_play E dl y (kDLineTap E) 0;
          (wah', dly) = wah_Process E wah dly;
          (ps1', out1) = ps_Process E ps1 dly;
          shift1 = fmul out1 (Finite mix_pitch1);
          (ps2', out2) = ps_Process E ps2 dly;
          shift2 = fmul out2 (Finite mix_pitch2);
          (dc', dly) = dcb_play E dc (fadd shift1 shift2) 0.995;
          y = fadd y (fmul dly (Finite 0.5))
      in (dl', wah', ps1', ps2', dc', y))"

definition ProcessInline ::
  "('sm, 'dl, 'wah, 'ps, 'dcb) dsp \<Rightarrow> real \<Rightarrow> stereosample_t
     \<Rightarrow> ('sm, 'dl, 'wah, 'ps, 'dcb) BettyAudioApp
     \<Rightarrow> error + (('sm, 'dl, 'wah, 'ps, 'dcb) BettyAudioApp \<times> stereosample_t)" where
  "ProcessInline E pitch_bias x st =
     (case control_values E pitch_bias st of
        Inl e \<Rightarrow> Inl e
      | Inr (pbs', sm', p, gate', smoothed_switch) \<Rightarrow>
         (let (ps1, ps2, mix_pitch1, mix_pitch2) =
                 pitch_mode E smoothed_switch p (pitchshifter_' st) (pitchshifter2_' st);
              wah3 = wah_settings E p (wah_' st);
              (dl', wah4, ps1', ps2', dcb', y) =
                 mono_mix E x (dl_' st) wah3 ps1 ps2 mix_pitch1 mix_pitch2 (dcb st);
              y = tanhf y
          in Inr (st\<lparr> dcb := dcb', pitchshifter_' := ps1', pitchshifter2_' := ps2',
                      wah_' := wah4, dl_' := dl', smoother := sm',
                      smoother_pitchshift_switch := gate', pitchbias_smoother := pbs' \<rparr>,
                  \<lparr> L = y, R = y \<rparr>)))"

definition ProcessParams ::
  "real list \<Rightarrow> ('sm, 'dl, 'wah, 'ps, 'dcb) BettyAudioApp
     \<Rightarrow> ('sm, 'dl, 'wah, 'ps, 'dcb) BettyAudioApp" where
  "ProcessParams params st = st\<lparr>neuralNetOutputs := params\<rparr>"

text \<open>
  External stages that hand the signal on unchanged and a pitch shifter whose state
  is the transposition last set, to run the pass on explicit inputs; and the
  application as its constructor leaves it with these stages.
\<close>

definition bypass :: "(unit, unit, unit, real, unit) dsp" where
  "bypass =
     \<lparr> kSampleRate = 48000,
       smoother_Process = (\<lambda>s v. (s, v)),
       smoother_Process1 = (\<lambda>s x. (s, x)),
       dl_play = (\<lambda>d y tap g. (d, y)),
       wah_SetLevel = (\<lambda>w l. w),
       wah_SetDryWet = (\<lambda>w l. w),
       wah_SetWah = (\<lambda>w l. w),
       wah_Process = (\<lambda>w y. (w, y)),
       ps_SetTransposition = (\<lambda>ps t. t),
       ps_Process = (\<lambda>ps y. (ps, y)),
       dcb_play = (\<lambda>c y r. (c, y)) \<rparr>"

definition bypass_app :: "(unit, unit, unit, real, unit) BettyAudioApp" where
  "bypass_app = BettyAudioApp_init bypass (\<lambda>time_ms sample_rate. ()) () 0 () ()"

text \<open>
  The same application after parameters with \<^verbatim>\<open>which_shift = 1\<close> and
  \<^verbatim>\<open>shift = 1\<close> have been stored and the gate has switched on.
\<close>

definition bypass_app_on :: "(unit, unit, unit, real, unit) BettyAudioApp" where
  "bypass_app_on =
     bypass_app\<lparr> neuralNetOutputs := [1, 1, 0, 0, 0, 0, 0],
                 smoother_pitchshift_switch :=
                   (smoother_pitchshift_switch bypass_app)
                     \<lparr>current_flag_' := True, pending_flag_' := True\<rparr> \<rparr>"

section \<open>A one-pole smoother\<close>

text \<open>
  Modelled from the spec: \<^verbatim>\<open>OnePoleSmoother<1>\<close> is declared in
  \<^verbatim>\<open>OnePoleSmoother.hpp\<close>, which is not part of the file. By the specification a
  channel is a one-pole low-pass filter toward its raw input, with a fixed time
  constant. The state is the last output \<open>y\<close>; with the coefficient \<open>a\<close> of the filter
  the output moves from \<open>y\<close> toward the input \<open>x\<close> by the fraction \<open>a\<close> of the distance.
\<close>

definition OnePoleSmoother_Process1 :: "real \<Rightarrow> real \<Rightarrow> real \<Rightarrow> real \<times> real" where
  "OnePoleSmoother_Process1 a y x = (let y' = y + a * (x - y) in (y', y'))"

text \<open>
  Modelled from the spec: the coefficient of the filter is set in
  \<^verbatim>\<open>OnePoleSmoother.hpp\<close>, which is not part of the file. By the specification the
  time constant is the time to reach about 63% of a step; with this coefficient the
  output has covered the fraction \<open>1 - 1/e\<close> of a step after \<open>time_ms\<close>
  milliseconds.
\<close>

definition OnePoleSmoother_coeff :: "real \<Rightarrow> real \<Rightarrow> real" where
  "OnePoleSmoother_coeff time_ms sample_rate =
     1 - exp (- 1 / (time_ms * 0.001 * sample_rate))"

section \<open>The transition function of the gate\<close>

lemma Process_unfold:
  "Process sm x g =
     (let target = (snd (sm (smoother_' g) x) \<ge> 0.5);
          (c, p, k) = gate_rule (hysteresis_samples_' g) target
                        (current_flag_' g, pending_flag_' g, counter_' g)
      in (g\<lparr>smoother_' := fst (sm (smoother_' g) x),
             current_flag_' := c, pending_flag_' := p, counter_' := k\<rparr>, c))"
  by (cases "sm (smoother_' g) x") (auto simp: Process_def gate_rule_def Let_def)

lemma HysteresisSmoother_init_initial:
  "initial_gate (HysteresisSmoother_init mk sample_rate smoothing_time_ms hysteresis_time_ms)"
  by (simp add: initial_gate_def HysteresisSmoother_init_def)

text \<open>
  C1. The constructor leaves \<open>current = false\<close>, \<open>pending = false\<close> and
  \<open>counter = 0\<close>. From any state, a call of \<^verbatim>\<open>Process\<close> thresholds the smoothed
  input at 0.5, replaces the three stored values by what the three-case rule gives
  for that target (\<^const>\<open>gate_rule\<close>), keeps the other members apart from the
  smoother's state, and returns the new current flag.
\<close>

theorem Process_three_case_rule:
  "initial_gate (HysteresisSmoother_init mk sample_rate smoothing_time_ms hysteresis_time_ms) \<and>
   Process sm x g =
     (let target = (snd (sm (smoother_' g) x) \<ge> 0.5);
          (c, p, k) = gate_rule (hysteresis_samples_' g) target
                        (current_flag_' g, pending_flag_' g, counter_' g)
      in (g\<lparr>smoother_' := fst (sm (smoother_' g) x),
             current_flag_' := c, pending_flag_' := p, counter_' := k\<rparr>, c)) \<and>
   snd (Process sm x g) = current_flag_' (fst (Process sm x g))"
proof -
  have "initial_gate
          (HysteresisSmoother_init mk sample_rate smoothing_time_ms hysteresis_time_ms)"
    by (simp add: initial_gate_def HysteresisSmoother_init_def)
  moreover have "snd (Process sm x g) = current_flag_' (fst (Process sm x g))"
    by (simp add: Process_def Let_def split: prod.splits)
  ultimately show ?thesis using Process_unfold [of sm x g] by simp
qed

section \<open>Runs of the gate\<close>

lemma Process_calls_append:
  "Process_calls sm g (xs @ ys) = Process_calls sm (Process_calls sm g xs) ys"
  by (induction xs arbitrary: g) simp_all

lemma gate_after_0: "gate_after sm g xs 0 = g"
  by (simp add: gate_after_def)

lemma gate_after_Suc:
  "n < length xs \<Longrightarrow>
   gate_after sm g xs (Suc n) = fst (Process sm (xs ! n) (gate_after sm g xs n))"
  by (simp add: gate_after_def take_Suc_conv_app_nth Process_calls_append)

lemma gate_after_length: "gate_after sm g xs (length xs) = Process_calls sm g xs"
  by (simp add: gate_after_def)

lemma gate_after_step:
  assumes "n < length xs"
  shows "(cur_at sm g xs (Suc n), pend_at sm g xs (Suc n), cnt_at sm g xs (Suc n)) =
           gate_rule (hysteresis_samples_' (gate_after sm g xs n)) (target_at sm g xs n)
             (cur_at sm g xs n, pend_at sm g xs n, cnt_at sm g xs n)"
    and "hysteresis_samples_' (gate_after sm g xs (Suc n)) =
           hysteresis_samples_' (gate_after sm g xs n)"
  using assms
  by (simp_all add: gate_after_Suc Process_unfold target_at_def Let_def split: prod.splits)

lemma gate_after_hs:
  "n \<le> length xs \<Longrightarrow> hysteresis_samples_' (gate_after sm g xs n) = hysteresis_samples_' g"
  by (induction n) (simp_all add: gate_after_0 gate_after_step(2))

lemma gate_after_rule:
  assumes "n < length xs"
  shows "(cur_at sm g xs (Suc n), pend_at sm g xs (Suc n), cnt_at sm g xs (Suc n)) =
           gate_rule (hysteresis_samples_' g) (target_at sm g xs n)
             (cur_at sm g xs n, pend_at sm g xs n, cnt_at sm g xs n)"
  using assms gate_after_step(1) [OF assms, of sm g] gate_after_hs [of n xs sm g] by simp

lemma counter_succ:
  fixes c h :: size_t
  assumes "c < h \<or> c = 1"
  shows "unat (c + 1) = Suc (unat c)"
proof -
  from assms have "unat c + unat (1 :: size_t) < 2 ^ LENGTH(32)"
  proof
    assume "c < h"
    then have "unat c < unat h" by (simp add: word_less_nat_alt)
    moreover have "unat h < 2 ^ LENGTH(32)" by (rule unsigned_less)
    ultimately show ?thesis by simp
  next
    assume "c = 1"
    then show ?thesis by simp
  qed
  then have "unat (c + 1) = unat c + unat (1 :: size_t)"
    by (simp only: unat_add_lem)
  then show ?thesis by simp
qed

lemma commit_iff:
  fixes c h :: size_t
  assumes "c < h \<or> c = 1"
  shows "h \<le> c + 1 \<longleftrightarrow> unat h \<le> Suc (unat c)"
  using counter_succ [OF assms] by (simp add: word_le_nat_alt)

lemma dwell_inv_stable:
  assumes "pend_at sm g xs n = cur_at sm g xs n" "cnt_at sm g xs n = 0"
  shows "dwell_inv sm g xs n"
  using assms by (simp add: dwell_inv_def)

lemma dwell_inv_pending:
  assumes "pend_at sm g xs n \<noteq> cur_at sm g xs n" "cnt_at sm g xs n \<noteq> 0"
    "cnt_at sm g xs n < hysteresis_samples_' g \<or> cnt_at sm g xs n = 1"
    "unat (cnt_at sm g xs n) \<le> n"
    "\<And>j. n - unat (cnt_at sm g xs n) \<le> j \<Longrightarrow> j < n \<Longrightarrow>
         target_at sm g xs j = pend_at sm g xs n"
    "\<And>j. n - unat (cnt_at sm g xs n) \<le> j \<Longrightarrow> j \<le> n \<Longrightarrow>
         cur_at sm g xs j = cur_at sm g xs n"
  shows "dwell_inv sm g xs n"
  unfolding dwell_inv_def using assms by blast

lemma gate_history:
  assumes init: "pending_flag_' g = current_flag_' g" "counter_' g = 0"
    and n: "n \<le> length xs"
  shows "dwell_inv sm g xs n"
  using n
proof (induction n)
  case 0
  show ?case by (rule dwell_inv_stable) (simp_all add: gate_after_0 init)
next
  case (Suc n)
  then have n: "n < length xs" and IH: "dwell_inv sm g xs n" by simp_all
  define t where "t = target_at sm g xs n"
  define c where "c = cur_at sm g xs n"
  define p where "p = pend_at sm g xs n"
  define k where "k = cnt_at sm g xs n"
  define h where "h = hysteresis_samples_' g"
  have step: "(cur_at sm g xs (Suc n), pend_at sm g xs (Suc n), cnt_at sm g xs (Suc n)) =
                gate_rule h t (c, p, k)"
    unfolding t_def c_def p_def k_def h_def by (rule gate_after_rule [OF n])
  consider (stable) "t = c" | (dwell) "t \<noteq> c" "t = p" | (restart) "t \<noteq> c" "t \<noteq> p"
    by blast
  then show ?case
  proof cases
    case stable
    with step have "pend_at sm g xs (Suc n) = cur_at sm g xs (Suc n)"
      "cnt_at sm g xs (Suc n) = 0" by (simp_all add: gate_rule_def)
    then show ?thesis by (rule dwell_inv_stable)
  next
    case restart
    with step have new: "cur_at sm g xs (Suc n) = c" "pend_at sm g xs (Suc n) = t"
      "cnt_at sm g xs (Suc n) = 1"
      by (simp_all add: gate_rule_def)
    show ?thesis
    proof (rule dwell_inv_pending)
      show "pend_at sm g xs (Suc n) \<noteq> cur_at sm g xs (Suc n)"
        using new restart by simp
      show "cnt_at sm g xs (Suc n) \<noteq> 0" using new by simp
      show "cnt_at sm g xs (Suc n) < hysteresis_samples_' g \<or> cnt_at sm g xs (Suc n) = 1"
        using new by simp
      show "unat (cnt_at sm g xs (Suc n)) \<le> Suc n" using new by simp
    next
      fix j
      assume "Suc n - unat (cnt_at sm g xs (Suc n)) \<le> j" "j < Suc n"
      then have "j = n" using new by simp
      then show "target_at sm g xs j = pend_at sm g xs (Suc n)"
        using new by (simp add: t_def)
    next
      fix j
      assume "Suc n - unat (cnt_at sm g xs (Suc n)) \<le> j" "j \<le> Suc n"
      then have "j = n \<or> j = Suc n" using new by auto
      then show "cur_at sm g xs j = cur_at sm g xs (Suc n)"
        using new by (auto simp: c_def)
    qed
  next
    case dwell
    then have pc: "p \<noteq> c" by simp
    with IH have k: "k \<noteq> 0" "k < h \<or> k = 1" "unat k \<le> n"
      and tg: "\<And>j. n - unat k \<le> j \<Longrightarrow> j < n \<Longrightarrow> target_at sm g xs j = p"
      and cu: "\<And>j. n - unat k \<le> j \<Longrightarrow> j \<le> n \<Longrightarrow> cur_at sm g xs j = c"
      unfolding c_def p_def k_def h_def dwell_inv_def by blast+
    show ?thesis
    proof (cases "h \<le> k + 1")
      case True
      with step dwell have "pend_at sm g xs (Suc n) = cur_at sm g xs (Suc n)"
        "cnt_at sm g xs (Suc n) = 0" by (simp_all add: gate_rule_def)
      then show ?thesis by (rule dwell_inv_stable)
    next
      case False
      with step dwell have new: "cur_at sm g xs (Suc n) = c" "pend_at sm g xs (Suc n) = p"
        "cnt_at sm g xs (Suc n) = k + 1"
        by (simp_all add: gate_rule_def)
      have su: "unat (k + 1) = Suc (unat k)" by (rule counter_succ [OF k(2)])
      show ?thesis
      proof (rule dwell_inv_pending)
        show "pend_at sm g xs (Suc n) \<noteq> cur_at sm g xs (Suc n)"
          using new pc by simp
        show "cnt_at sm g xs (Suc n) \<noteq> 0"
          using su new by (metis Zero_not_Suc unat_0)
        show "cnt_at sm g xs (Suc n) < hysteresis_samples_' g \<or> cnt_at sm g xs (Suc n) = 1"
          using new False by (simp add: h_def not_le)
        show "unat (cnt_at sm g xs (Suc n)) \<le> Suc n" using new su k(3) by simp
      next
        fix j
        assume a: "Suc n - unat (cnt_at sm g xs (Suc n)) \<le> j" "j < Suc n"
        show "target_at sm g xs j = pend_at sm g xs (Suc n)"
        proof (cases "j = n")
          case True
          then show ?thesis using dwell new by (simp add: t_def)
        next
          case False
          with a have "n - unat k \<le> j" "j < n" using new su by simp_all
          then show ?thesis using tg new by simp
        qed
      next
        fix j
        assume a: "Suc n - unat (cnt_at sm g xs (Suc n)) \<le> j" "j \<le> Suc n"
        show "cur_at sm g xs j = cur_at sm g xs (Suc n)"
        proof (cases "j = Suc n")
          case True
          then show ?thesis by simp
        next
          case False
          with a have "n - unat k \<le> j" "j \<le> n" using new su by simp_all
          then show ?thesis using cu new by simp
        qed
      qed
    qed
  qed
qed

lemma change_is_commit:
  assumes n: "n < length xs" and ch: "cur_at sm g xs (Suc n) \<noteq> cur_at sm g xs n"
  shows "target_at sm g xs n \<noteq> cur_at sm g xs n"
    and "target_at sm g xs n = pend_at sm g xs n"
    and "hysteresis_samples_' g \<le> cnt_at sm g xs n + 1"
    and "cur_at sm g xs (Suc n) = target_at sm g xs n"
  using gate_after_rule [OF n, of sm g] ch
  by (auto simp: gate_rule_def split: if_splits)

lemma change_window:
  assumes init: "pending_flag_' g = current_flag_' g" "counter_' g = 0"
    and n: "n < length xs" and ch: "cur_at sm g xs (Suc n) \<noteq> cur_at sm g xs n"
  shows "unat (hysteresis_samples_' g) \<le> Suc (unat (cnt_at sm g xs n))"
    and "unat (cnt_at sm g xs n) \<le> n"
    and "\<And>j. n - unat (cnt_at sm g xs n) \<le> j \<Longrightarrow> j \<le> n \<Longrightarrow>
           target_at sm g xs j = cur_at sm g xs (Suc n)"
    and "\<And>j. n - unat (cnt_at sm g xs n) \<le> j \<Longrightarrow> j \<le> n \<Longrightarrow>
           cur_at sm g xs j = cur_at sm g xs n"
proof -
  note cm = change_is_commit [OF n ch]
  have inv: "dwell_inv sm g xs n" using init n by (intro gate_history) simp_all
  from cm have pc: "pend_at sm g xs n \<noteq> cur_at sm g xs n" by simp
  with inv have k: "cnt_at sm g xs n < hysteresis_samples_' g \<or> cnt_at sm g xs n = 1"
    and kn: "unat (cnt_at sm g xs n) \<le> n"
    and tg: "\<And>j. n - unat (cnt_at sm g xs n) \<le> j \<Longrightarrow> j < n \<Longrightarrow>
           target_at sm g xs j = pend_at sm g xs n"
    and cu: "\<And>j. n - unat (cnt_at sm g xs n) \<le> j \<Longrightarrow> j \<le> n \<Longrightarrow>
           cur_at sm g xs j = cur_at sm g xs n"
    unfolding dwell_inv_def by blast+
  show "unat (hysteresis_samples_' g) \<le> Suc (unat (cnt_at sm g xs n))"
    using cm(3) commit_iff [OF k] by simp
  show "unat (cnt_at sm g xs n) \<le> n" by (rule kn)
  show "target_at sm g xs j = cur_at sm g xs (Suc n)"
    if "n - unat (cnt_at sm g xs n) \<le> j" "j \<le> n" for j
  proof (cases "j = n")
    case True
    then show ?thesis using cm by simp
  next
    case False
    with that have "j < n" by simp
    then show ?thesis using tg [OF that(1)] cm by simp
  qed
  show "cur_at sm g xs j = cur_at sm g xs n"
    if "n - unat (cnt_at sm g xs n) \<le> j" "j \<le> n" for j
    using that by (rule cu)
qed

lemma change_after_agreement:
  assumes init: "pending_flag_' g = current_flag_' g" "counter_' g = 0"
    and n: "n < length xs" and ch: "cur_at sm g xs (Suc n) \<noteq> cur_at sm g xs n"
  shows "unat (hysteresis_samples_' g) \<le> Suc n"
    and "\<And>i. Suc n - unat (hysteresis_samples_' g) \<le> i \<Longrightarrow> i \<le> n \<Longrightarrow>
           target_at sm g xs i = cur_at sm g xs (Suc n)"
proof -
  note w = change_window [OF init n ch]
  show "unat (hysteresis_samples_' g) \<le> Suc n" using w(1,2) by simp
  show "target_at sm g xs i = cur_at sm g xs (Suc n)"
    if "Suc n - unat (hysteresis_samples_' g) \<le> i" "i \<le> n" for i
  proof -
    have "n - unat (cnt_at sm g xs n) \<le> i" using that(1) w(1) by simp
    then show ?thesis using that(2) by (rule w(3))
  qed
qed

lemma changes_separated:
  assumes init: "pending_flag_' g = current_flag_' g" "counter_' g = 0"
    and mn: "m < n" and n: "n < length xs"
    and chm: "cur_at sm g xs (Suc m) \<noteq> cur_at sm g xs m"
    and chn: "cur_at sm g xs (Suc n) \<noteq> cur_at sm g xs n"
  shows "unat (hysteresis_samples_' g) \<le> n - m"
proof -
  note w = change_window [OF init n chn]
  have "m < n - unat (cnt_at sm g xs n)"
  proof (rule ccontr)
    assume "\<not> m < n - unat (cnt_at sm g xs n)"
    then have lo: "n - unat (cnt_at sm g xs n) \<le> m" "n - unat (cnt_at sm g xs n) \<le> Suc m"
      by simp_all
    have "cur_at sm g xs m = cur_at sm g xs n" using lo(1) mn by (intro w(4)) simp_all
    moreover have "cur_at sm g xs (Suc m) = cur_at sm g xs n"
      using lo(2) mn by (intro w(4)) simp_all
    ultimately show False using chm by simp
  qed
  then show ?thesis using w(1) by simp
qed

lemma first_change:
  assumes "n \<le> length xs" "cur_at sm g xs n \<noteq> current_flag_' g"
  shows "\<exists>m<n. cur_at sm g xs (Suc m) \<noteq> cur_at sm g xs m"
  using assms
proof (induction n)
  case 0
  then show ?case by (simp add: gate_after_0)
next
  case (Suc n)
  show ?case
  proof (cases "cur_at sm g xs (Suc n) = cur_at sm g xs n")
    case True
    with Suc obtain m where "m < n" "cur_at sm g xs (Suc m) \<noteq> cur_at sm g xs m" by auto
    then show ?thesis using less_Suc_eq by blast
  next
    case False
    then show ?thesis by blast
  qed
qed

lemma chatter_rejected:
  assumes init: "pending_flag_' g = current_flag_' g" "counter_' g = 0"
    and osc: "\<And>k. k + unat (hysteresis_samples_' g) \<le> length xs \<Longrightarrow>
               \<exists>i<unat (hysteresis_samples_' g). target_at sm g xs (k + i) \<noteq> target_at sm g xs k"
    and n: "n \<le> length xs"
  shows "cur_at sm g xs n = current_flag_' g"
proof (rule ccontr)
  assume "cur_at sm g xs n \<noteq> current_flag_' g"
  with n obtain m where m: "m < n" "cur_at sm g xs (Suc m) \<noteq> cur_at sm g xs m"
    using first_change by blast
  then have ml: "m < length xs" using n by simp
  note a = change_after_agreement [OF init ml m(2)]
  define h where "h = unat (hysteresis_samples_' g)"
  define k where "k = Suc m - h"
  have "k + h \<le> length xs" using a(1) ml by (simp add: k_def h_def)
  then obtain i where i: "i < h" "target_at sm g xs (k + i) \<noteq> target_at sm g xs k"
    using osc unfolding h_def by blast
  have "target_at sm g xs (k + i) = cur_at sm g xs (Suc m)"
    using i(1) a(1) by (intro a(2)) (simp_all add: k_def h_def)
  moreover have "target_at sm g xs k = cur_at sm g xs (Suc m)"
    using i(1) a(1) by (intro a(2)) (simp_all add: k_def h_def)
  ultimately show False using i(2) by simp
qed

lemma reachable_counter:
  assumes "initial_gate g" "2 \<le> hysteresis_samples_' g"
  shows "counter_' (Process_calls sm g xs) < hysteresis_samples_' (Process_calls sm g xs) \<and>
         (counter_' (Process_calls sm g xs) = 0 \<longleftrightarrow>
            pending_flag_' (Process_calls sm g xs) = current_flag_' (Process_calls sm g xs))"
proof -
  have inv: "dwell_inv sm g xs (length xs)"
    using assms(1) by (intro gate_history) (simp_all add: initial_gate_def)
  have hs: "hysteresis_samples_' (Process_calls sm g xs) = hysteresis_samples_' g"
    using gate_after_hs [of "length xs" xs sm g] by (simp add: gate_after_length)
  have one: "(1 :: size_t) < hysteresis_samples_' g"
    using assms(2) by (simp add: word_less_nat_alt word_le_nat_alt)
  have zero: "(0 :: size_t) < hysteresis_samples_' g"
    using assms(2) by (simp add: word_less_nat_alt word_le_nat_alt)
  show ?thesis
    using inv one zero unfolding dwell_inv_def gate_after_length hs by metis
qed

lemma dwell_count:
  assumes g: "current_flag_' g = False" "pending_flag_' g = False"
    and tg: "\<And>i. i < unat (hysteresis_samples_' g) \<Longrightarrow> target_at sm g xs i"
    and len: "unat (hysteresis_samples_' g) \<le> length xs"
    and two: "2 \<le> hysteresis_samples_' g"
    and j: "j < unat (hysteresis_samples_' g)"
  shows "cur_at sm g xs (Suc j) = (Suc j = unat (hysteresis_samples_' g)) \<and>
         (Suc j < unat (hysteresis_samples_' g) \<longrightarrow>
            pend_at sm g xs (Suc j) = True \<and> unat (cnt_at sm g xs (Suc j)) = Suc j)"
  using j
proof (induction j)
  case 0
  have "0 < length xs" using 0 len by auto
  note st = gate_after_rule [OF this, of sm g]
  have "target_at sm g xs 0" using 0 by (rule tg)
  with st g have "cur_at sm g xs (Suc 0) = False" "pend_at sm g xs (Suc 0) = True"
    "cnt_at sm g xs (Suc 0) = 1"
    by (simp_all add: gate_rule_def gate_after_0)
  moreover have "2 \<le> unat (hysteresis_samples_' g)"
    using two by (simp add: word_le_nat_alt)
  ultimately show ?case by simp
next
  case (Suc j)
  then have IH: "cur_at sm g xs (Suc j) = False" "pend_at sm g xs (Suc j) = True"
    "unat (cnt_at sm g xs (Suc j)) = Suc j"
    by simp_all
  have "Suc j < length xs" using Suc.prems len by simp
  note st = gate_after_rule [OF this, of sm g]
  have t: "target_at sm g xs (Suc j)" using Suc.prems by (rule tg)
  have lt: "cnt_at sm g xs (Suc j) < hysteresis_samples_' g"
    using IH(3) Suc.prems by (simp add: word_less_nat_alt)
  then have su: "unat (cnt_at sm g xs (Suc j) + 1) = Suc (Suc j)"
    using counter_succ [of "cnt_at sm g xs (Suc j)" "hysteresis_samples_' g"] IH(3) by simp
  have ci: "hysteresis_samples_' g \<le> cnt_at sm g xs (Suc j) + 1 \<longleftrightarrow>
            unat (hysteresis_samples_' g) \<le> Suc (Suc j)"
    using commit_iff [of "cnt_at sm g xs (Suc j)" "hysteresis_samples_' g"] lt IH(3) by simp
  show ?case
  proof (cases "Suc (Suc j) = unat (hysteresis_samples_' g)")
    case True
    then show ?thesis using st t IH ci by (simp add: gate_rule_def)
  next
    case False
    then have "Suc (Suc j) < unat (hysteresis_samples_' g)" using Suc.prems by simp
    then show ?thesis using st t IH ci su by (simp add: gate_rule_def)
  qed
qed

text \<open>Unfolding a run of the gate on explicit inputs.\<close>

lemmas gate_eval = HysteresisSmoother_init_def size_t_of_float_def gate_after_def target_at_def
  Process_def OnePoleSmoother_Process1_def Let_def

section \<open>The invariant of the reachable states\<close>

text \<open>
  C9. If \<^verbatim>\<open>hysteresis_samples_\<close> is at least 2, then in every state that a sequence
  of \<^verbatim>\<open>Process\<close> calls reaches from the initial state the counter is below
  \<^verbatim>\<open>hysteresis_samples_\<close>, and the counter is 0 if and only if the pending flag equals
  the current flag.
\<close>

theorem reachable_gate_invariant:
  assumes "initial_gate g" and "2 \<le> hysteresis_samples_' g"
  shows "counter_' (Process_calls sm g xs) < hysteresis_samples_' (Process_calls sm g xs) \<and>
         (counter_' (Process_calls sm g xs) = 0 \<longleftrightarrow>
            pending_flag_' (Process_calls sm g xs) = current_flag_' (Process_calls sm g xs))"
  using assms by (rule reachable_counter)

theorem reachable_gate_invariant_witness:
  "initial_gate (HysteresisSmoother_init (\<lambda>t r. 0 :: real) 20 400 100) \<and>
   2 \<le> hysteresis_samples_' (HysteresisSmoother_init (\<lambda>t r. 0 :: real) 20 400 100) \<and>
   counter_' (Process_calls (OnePoleSmoother_Process1 1)
                (HysteresisSmoother_init (\<lambda>t r. 0) 20 400 100) [1]) = 1 \<and>
   counter_' (Process_calls (OnePoleSmoother_Process1 1)
                (HysteresisSmoother_init (\<lambda>t r. 0) 20 400 100) [1])
     < hysteresis_samples_' (Process_calls (OnePoleSmoother_Process1 1)
                (HysteresisSmoother_init (\<lambda>t r. 0) 20 400 100) [1]) \<and>
   pending_flag_' (Process_calls (OnePoleSmoother_Process1 1)
                (HysteresisSmoother_init (\<lambda>t r. 0) 20 400 100) [1])
     \<noteq> current_flag_' (Process_calls (OnePoleSmoother_Process1 1)
                (HysteresisSmoother_init (\<lambda>t r. 0) 20 400 100) [1])"
proof -
  have i: "initial_gate (HysteresisSmoother_init (\<lambda>t r. 0 :: real) 20 400 100)"
    by (rule HysteresisSmoother_init_initial)
  have h: "2 \<le> hysteresis_samples_' (HysteresisSmoother_init (\<lambda>t r. 0 :: real) 20 400 100)"
    by (simp add: HysteresisSmoother_init_def size_t_of_float_def)
  have c: "counter_' (Process_calls (OnePoleSmoother_Process1 1)
                (HysteresisSmoother_init (\<lambda>t r. 0) 20 400 100) [1]) = 1"
    by (simp add: HysteresisSmoother_init_def size_t_of_float_def Process_def
        OnePoleSmoother_Process1_def Let_def)
  from reachable_gate_invariant [OF i h, of "OnePoleSmoother_Process1 1" "[1]"] i h c
  show ?thesis by simp
qed

section \<open>Debouncing\<close>

text \<open>
  C4, as amended. The gate thresholds its smoothed input, the output of its internal
  smoother, and the guarantee is about that signal. In a sequence of \<^verbatim>\<open>Process\<close>
  calls from the initial state, with the calls counted from 0: (1) if call \<open>n\<close>
  changes the current flag, then at least \<^verbatim>\<open>hysteresis_samples_\<close> calls have been
  made, the new value was the pending candidate, and the thresholded smoothed input
  was that value in each of the last \<^verbatim>\<open>hysteresis_samples_\<close> calls up to call \<open>n\<close>;
  (2) two calls that change the current flag are at least \<^verbatim>\<open>hysteresis_samples_\<close>
  calls apart; (3) if the thresholded smoothed input never keeps one value for
  \<^verbatim>\<open>hysteresis_samples_\<close> consecutive calls, the current flag stays false throughout.
\<close>

theorem current_flag_debounced:
  assumes "initial_gate g"
  shows "(\<forall>n<length xs. cur_at sm g xs (Suc n) \<noteq> cur_at sm g xs n \<longrightarrow>
            unat (hysteresis_samples_' g) \<le> Suc n \<and>
            pend_at sm g xs n = cur_at sm g xs (Suc n) \<and>
            (\<forall>i. Suc n - unat (hysteresis_samples_' g) \<le> i \<and> i \<le> n \<longrightarrow>
                 target_at sm g xs i = cur_at sm g xs (Suc n))) \<and>
         (\<forall>m n. m < n \<and> n < length xs \<and>
                 cur_at sm g xs (Suc m) \<noteq> cur_at sm g xs m \<and>
                 cur_at sm g xs (Suc n) \<noteq> cur_at sm g xs n \<longrightarrow>
                 unat (hysteresis_samples_' g) \<le> n - m) \<and>
         ((\<forall>k. k + unat (hysteresis_samples_' g) \<le> length xs \<longrightarrow>
               (\<exists>i<unat (hysteresis_samples_' g).
                   target_at sm g xs (k + i) \<noteq> target_at sm g xs k)) \<longrightarrow>
          (\<forall>n\<le>length xs. cur_at sm g xs n = False))"
proof -
  from assms have init: "pending_flag_' g = current_flag_' g" "counter_' g = 0"
    and cur: "current_flag_' g = False"
    by (simp_all add: initial_gate_def)
  have a: "unat (hysteresis_samples_' g) \<le> Suc n \<and>
           pend_at sm g xs n = cur_at sm g xs (Suc n) \<and>
           (\<forall>i. Suc n - unat (hysteresis_samples_' g) \<le> i \<and> i \<le> n \<longrightarrow>
                target_at sm g xs i = cur_at sm g xs (Suc n))"
    if "n < length xs" "cur_at sm g xs (Suc n) \<noteq> cur_at sm g xs n" for n
    using change_after_agreement [OF init that] change_is_commit [OF that] by simp
  have b: "unat (hysteresis_samples_' g) \<le> n - m"
    if "m < n \<and> n < length xs \<and> cur_at sm g xs (Suc m) \<noteq> cur_at sm g xs m \<and>
        cur_at sm g xs (Suc n) \<noteq> cur_at sm g xs n" for m n
    using that changes_separated [OF init, of m n xs sm] by simp
  have c: "cur_at sm g xs n = False"
    if "\<forall>k. k + unat (hysteresis_samples_' g) \<le> length xs \<longrightarrow>
          (\<exists>i<unat (hysteresis_samples_' g).
              target_at sm g xs (k + i) \<noteq> target_at sm g xs k)"
      and "n \<le> length xs" for n
    using chatter_rejected [OF init, of xs sm n] that cur by simp
  from a b c show ?thesis by blast
qed

theorem current_flag_debounced_witness:
  "initial_gate (HysteresisSmoother_init (\<lambda>t r. 0 :: real) 20 400 100) \<and>
   unat (hysteresis_samples_' (HysteresisSmoother_init (\<lambda>t r. 0 :: real) 20 400 100)) = 2 \<and>
   cur_at (OnePoleSmoother_Process1 (1 / 2)) (HysteresisSmoother_init (\<lambda>t r. 0) 20 400 100)
      [1, 1, 0, 0] (Suc 1)
     \<noteq> cur_at (OnePoleSmoother_Process1 (1 / 2)) (HysteresisSmoother_init (\<lambda>t r. 0) 20 400 100)
      [1, 1, 0, 0] 1 \<and>
   cur_at (OnePoleSmoother_Process1 (1 / 2)) (HysteresisSmoother_init (\<lambda>t r. 0) 20 400 100)
      [1, 1, 0, 0] (Suc 3)
     \<noteq> cur_at (OnePoleSmoother_Process1 (1 / 2)) (HysteresisSmoother_init (\<lambda>t r. 0) 20 400 100)
      [1, 1, 0, 0] 3 \<and>
   target_at (OnePoleSmoother_Process1 (1 / 2)) (HysteresisSmoother_init (\<lambda>t r. 0) 20 400 100)
      [1, 1, 0, 0] 0
     = cur_at (OnePoleSmoother_Process1 (1 / 2)) (HysteresisSmoother_init (\<lambda>t r. 0) 20 400 100)
      [1, 1, 0, 0] (Suc 1) \<and>
   unat (hysteresis_samples_' (HysteresisSmoother_init (\<lambda>t r. 0 :: real) 20 400 100)) \<le> 3 - 1 \<and>
   target_at (OnePoleSmoother_Process1 (1 / 2))
      (HysteresisSmoother_init (\<lambda>t r. 0) 20 400 100) [1, 0, 1, 0] 1
     \<noteq> target_at (OnePoleSmoother_Process1 (1 / 2))
      (HysteresisSmoother_init (\<lambda>t r. 0) 20 400 100) [1, 0, 1, 0] 0 \<and>
   target_at (OnePoleSmoother_Process1 (1 / 2))
      (HysteresisSmoother_init (\<lambda>t r. 0) 20 400 100) [1, 0, 1, 0] 2
     \<noteq> target_at (OnePoleSmoother_Process1 (1 / 2))
      (HysteresisSmoother_init (\<lambda>t r. 0) 20 400 100) [1, 0, 1, 0] 1 \<and>
   target_at (OnePoleSmoother_Process1 (1 / 2))
      (HysteresisSmoother_init (\<lambda>t r. 0) 20 400 100) [1, 0, 1, 0] 3
     \<noteq> target_at (OnePoleSmoother_Process1 (1 / 2))
      (HysteresisSmoother_init (\<lambda>t r. 0) 20 400 100) [1, 0, 1, 0] 2 \<and>
   cur_at (OnePoleSmoother_Process1 (1 / 2)) (HysteresisSmoother_init (\<lambda>t r. 0) 20 400 100)
      [1, 0, 1, 0] 4 = False"
proof -
  define G where "G = HysteresisSmoother_init (\<lambda>t r. 0 :: real) 20 400 100"
  define S where "S = OnePoleSmoother_Process1 (1 / 2)"
  have i: "initial_gate G" unfolding G_def by (rule HysteresisSmoother_init_initial)
  have h: "unat (hysteresis_samples_' G) = 2"
    by (simp add: G_def HysteresisSmoother_init_def size_t_of_float_def)
  have c1: "cur_at S G [1, 1, 0, 0] (Suc 1) \<noteq> cur_at S G [1, 1, 0, 0] 1"
    by (simp add: G_def S_def gate_eval)
  have c3: "cur_at S G [1, 1, 0, 0] (Suc 3) \<noteq> cur_at S G [1, 1, 0, 0] 3"
    by (simp add: G_def S_def gate_eval)
  note t = current_flag_debounced [OF i, of "[1, 1, 0, 0]" S]
  have "target_at S G [1, 1, 0, 0] 0 = cur_at S G [1, 1, 0, 0] (Suc 1)"
    using t [THEN conjunct1, rule_format, of 1, THEN conjunct2, THEN conjunct2,
             rule_format, of 0] c1 h
    by simp
  then have w: "target_at S G [1, 1, 0, 0] 0 = cur_at S G [1, 1, 0, 0] (Suc 1)" .
  have sep: "unat (hysteresis_samples_' G) \<le> 3 - 1"
    using t [THEN conjunct2, THEN conjunct1, rule_format, of 1 3] c1 c3 by simp
  have osc: "\<exists>i<unat (hysteresis_samples_' G).
      target_at S G [1, 0, 1, 0] (k + i) \<noteq> target_at S G [1, 0, 1, 0] k"
    if "k + unat (hysteresis_samples_' G) \<le> length [1, 0, 1, 0 :: real]" for k
  proof -
    from that h have "k = 0 \<or> k = 1 \<or> k = 2" by auto
    then have "target_at S G [1, 0, 1, 0] (k + 1) \<noteq> target_at S G [1, 0, 1, 0] k"
      by (auto simp: G_def S_def gate_eval)
    then show ?thesis using h by (intro exI [of _ 1]) simp
  qed
  note u = current_flag_debounced [OF i, of "[1, 0, 1, 0]" S]
  have q: "cur_at S G [1, 0, 1, 0] 4 = False"
    using u [THEN conjunct2, THEN conjunct2, rule_format, of 4] osc by simp
  have o: "target_at S G [1, 0, 1, 0] 1 \<noteq> target_at S G [1, 0, 1, 0] 0"
    "target_at S G [1, 0, 1, 0] 2 \<noteq> target_at S G [1, 0, 1, 0] 1"
    "target_at S G [1, 0, 1, 0] 3 \<noteq> target_at S G [1, 0, 1, 0] 2"
    by (simp_all add: G_def S_def gate_eval)
  from i h c1 c3 w sep o q show ?thesis unfolding G_def S_def by blast
qed

text \<open>
  C4, as stated, speaks of the input of the gate. With a one-pole smoother that moves
  half of the way in each call and \<^verbatim>\<open>hysteresis_samples_ = 2\<close>, the input
  1, 2/5, 1, 2/5 is on the other side of 0.5 in every call, but the smoothed input is
  1/2, 9/20, 29/40, 9/16: it is at least 0.5 in the last two calls, and the current
  flag is true after the fourth call.
\<close>

theorem raw_input_chatter_counterexample:
  "initial_gate \<lparr>sample_rate_' = 20, hysteresis_time_ms_' = 100, smoother_' = 0 :: real,
       current_flag_' = False, pending_flag_' = False, counter_' = 0,
       hysteresis_samples_' = 2\<rparr> \<and>
   (1 :: real) \<ge> 0.5 \<and> \<not> (2 / 5 :: real) \<ge> 0.5 \<and>
   cur_at (OnePoleSmoother_Process1 (1 / 2))
     \<lparr>sample_rate_' = 20, hysteresis_time_ms_' = 100, smoother_' = 0,
       current_flag_' = False, pending_flag_' = False, counter_' = 0,
       hysteresis_samples_' = 2\<rparr> [1, 2 / 5, 1, 2 / 5] 3 = False \<and>
   cur_at (OnePoleSmoother_Process1 (1 / 2))
     \<lparr>sample_rate_' = 20, hysteresis_time_ms_' = 100, smoother_' = 0,
       current_flag_' = False, pending_flag_' = False, counter_' = 0,
       hysteresis_samples_' = 2\<rparr> [1, 2 / 5, 1, 2 / 5] 4 = True"
  by (simp add: initial_gate_def gate_eval)

section \<open>Switching on\<close>

lemma quick_commit:
  assumes g: "current_flag_' g = False" "pending_flag_' g = False"
    and h: "hysteresis_samples_' g \<le> 1"
    and len: "2 \<le> length xs"
    and tg: "target_at sm g xs 0" "target_at sm g xs 1"
  shows "cur_at sm g xs 1 = False" and "cur_at sm g xs 2 = True"
proof -
  have l0: "0 < length xs" and l1: "1 < length xs" using len by auto
  have s1: "cur_at sm g xs (Suc 0) = False" "pend_at sm g xs (Suc 0) = True"
    "cnt_at sm g xs (Suc 0) = 1"
    using gate_after_rule [OF l0, of sm g] g tg(1)
    by (simp_all add: gate_rule_def gate_after_0)
  then show "cur_at sm g xs 1 = False" by simp
  have "hysteresis_samples_' g \<le> 1 + 1"
    using h by (simp add: word_le_nat_alt)
  then have "cur_at sm g xs (Suc 1) = True"
    using gate_after_rule [OF l1, of sm g] s1 tg(2)
    by (simp add: gate_rule_def)
  then show "cur_at sm g xs 2 = True" by (simp add: numeral_2_eq_2)
qed

text \<open>
  C5, as amended. From a state with \<open>current = false\<close> and \<open>pending = false\<close>
  (the initial state, or the state after any call whose thresholded input was
  false), let the smoothed input of the gate, that is the output of its internal
  smoother, be at least 0.5 in \<open>N\<close> consecutive calls, where \<open>N\<close> is
  \<^verbatim>\<open>hysteresis_samples_\<close>, or 2 if \<^verbatim>\<open>hysteresis_samples_\<close> is less than 2. Then
  the current flag is false before each of these calls and true after the last one:
  it becomes true in call number \<open>N\<close> exactly.
\<close>

theorem smoothed_dwell_commits:
  assumes "current_flag_' g = False" and "pending_flag_' g = False"
    and "max 2 (unat (hysteresis_samples_' g)) \<le> length xs"
    and "\<forall>i<max 2 (unat (hysteresis_samples_' g)). target_at sm g xs i"
  shows "(\<forall>n<max 2 (unat (hysteresis_samples_' g)). cur_at sm g xs n = False) \<and>
         cur_at sm g xs (max 2 (unat (hysteresis_samples_' g))) = True"
proof (cases "2 \<le> hysteresis_samples_' g")
  case True
  then have h2: "2 \<le> unat (hysteresis_samples_' g)" by (simp add: word_le_nat_alt)
  then have m: "max 2 (unat (hysteresis_samples_' g)) = unat (hysteresis_samples_' g)"
    by simp
  have dc: "cur_at sm g xs (Suc j) = (Suc j = unat (hysteresis_samples_' g))"
    if "j < unat (hysteresis_samples_' g)" for j
    using dwell_count [OF assms(1,2) _ _ True that, of sm xs] assms(3,4) m by simp
  have "cur_at sm g xs n = False" if "n < unat (hysteresis_samples_' g)" for n
  proof (cases n)
    case 0
    then show ?thesis using assms(1) by (simp add: gate_after_0)
  next
    case (Suc j)
    then show ?thesis using dc [of j] that by simp
  qed
  moreover have "cur_at sm g xs (unat (hysteresis_samples_' g)) = True"
    using dc [of "unat (hysteresis_samples_' g) - 1"] h2 by simp
  ultimately show ?thesis unfolding m by blast
next
  case False
  then have h1: "hysteresis_samples_' g \<le> 1"
    by (simp add: word_le_nat_alt not_le)
  then have "unat (hysteresis_samples_' g) \<le> 1" by (simp add: word_le_nat_alt)
  then have m: "max 2 (unat (hysteresis_samples_' g)) = 2" by simp
  have t: "target_at sm g xs 0" "target_at sm g xs 1" using assms(4) m by simp_all
  have len: "2 \<le> length xs" using assms(3) m by simp
  note q = quick_commit [OF assms(1,2) h1 len t]
  have "cur_at sm g xs n = False" if "n < 2" for n
  proof -
    from that have "n = 0 \<or> n = 1" by auto
    then show ?thesis using q(1) assms(1) by (auto simp: gate_after_0)
  qed
  then show ?thesis unfolding m using q(2) by blast
qed

theorem smoothed_dwell_commits_witness:
  "current_flag_' (HysteresisSmoother_init (\<lambda>t r. 0 :: real) 20 400 100) = False \<and>
   pending_flag_' (HysteresisSmoother_init (\<lambda>t r. 0 :: real) 20 400 100) = False \<and>
   max 2 (unat (hysteresis_samples_' (HysteresisSmoother_init (\<lambda>t r. 0 :: real) 20 400 100))) = 2 \<and>
   2 \<le> length [1, 1 :: real] \<and>
   target_at (OnePoleSmoother_Process1 (1 / 2))
      (HysteresisSmoother_init (\<lambda>t r. 0) 20 400 100) [1, 1] 0 \<and>
   target_at (OnePoleSmoother_Process1 (1 / 2))
      (HysteresisSmoother_init (\<lambda>t r. 0) 20 400 100) [1, 1] 1 \<and>
   cur_at (OnePoleSmoother_Process1 (1 / 2))
      (HysteresisSmoother_init (\<lambda>t r. 0) 20 400 100) [1, 1] 1 = False \<and>
   cur_at (OnePoleSmoother_Process1 (1 / 2))
      (HysteresisSmoother_init (\<lambda>t r. 0) 20 400 100) [1, 1] 2 = True"
proof -
  define G where "G = HysteresisSmoother_init (\<lambda>t r. 0 :: real) 20 400 100"
  define S where "S = OnePoleSmoother_Process1 (1 / 2)"
  have c: "current_flag_' G = False" and p: "pending_flag_' G = False"
    by (simp_all add: G_def HysteresisSmoother_init_def)
  have m: "max 2 (unat (hysteresis_samples_' G)) = 2"
    by (simp add: G_def HysteresisSmoother_init_def size_t_of_float_def)
  have l: "max 2 (unat (hysteresis_samples_' G)) \<le> length [1, 1 :: real]"
    unfolding m by simp
  have t2: "\<forall>i<2. target_at S G [1, 1] i"
  proof (intro allI impI)
    fix i :: nat
    assume "i < 2"
    then have "i = 0 \<or> i = 1" by auto
    then show "target_at S G [1, 1] i" by (auto simp: G_def S_def gate_eval)
  qed
  then have t: "\<forall>i<max 2 (unat (hysteresis_samples_' G)). target_at S G [1, 1] i"
    unfolding m .
  note r = smoothed_dwell_commits [OF c p l t, unfolded m]
  from r have "cur_at S G [1, 1] 1 = False" "cur_at S G [1, 1] 2 = True" by simp_all
  moreover have "target_at S G [1, 1] 0" "target_at S G [1, 1] 1"
    using t2 by simp_all
  ultimately show ?thesis using c p m unfolding G_def S_def by simp
qed

text \<open>
  C5, as stated, speaks of the input handed to \<^verbatim>\<open>Process\<close>, and \<^verbatim>\<open>Process\<close>
  smooths that input before it thresholds it. With a one-pole smoother that moves
  an eighth of the way in each call, a gate with \<^verbatim>\<open>hysteresis_samples_ = 3\<close> in its
  initial state and the input held at 1, the smoothed input is 1/8, 15/64, 169/512
  and 1695/4096 in the first four calls, all below 0.5, and the current flag is
  still false after three calls, and after four.
\<close>

theorem raw_input_dwell_counterexample:
  "initial_gate \<lparr>sample_rate_' = 20, hysteresis_time_ms_' = 150, smoother_' = 0 :: real,
       current_flag_' = False, pending_flag_' = False, counter_' = 0,
       hysteresis_samples_' = 3\<rparr> \<and>
   (1 :: real) > 0.5 \<and>
   cur_at (OnePoleSmoother_Process1 (1 / 8))
     \<lparr>sample_rate_' = 20, hysteresis_time_ms_' = 150, smoother_' = 0,
       current_flag_' = False, pending_flag_' = False, counter_' = 0,
       hysteresis_samples_' = 3\<rparr> [1, 1, 1, 1] 1 = False \<and>
   cur_at (OnePoleSmoother_Process1 (1 / 8))
     \<lparr>sample_rate_' = 20, hysteresis_time_ms_' = 150, smoother_' = 0,
       current_flag_' = False, pending_flag_' = False, counter_' = 0,
       hysteresis_samples_' = 3\<rparr> [1, 1, 1, 1] 2 = False \<and>
   cur_at (OnePoleSmoother_Process1 (1 / 8))
     \<lparr>sample_rate_' = 20, hysteresis_time_ms_' = 150, smoother_' = 0,
       current_flag_' = False, pending_flag_' = False, counter_' = 0,
       hysteresis_samples_' = 3\<rparr> [1, 1, 1, 1] 3 = False \<and>
   cur_at (OnePoleSmoother_Process1 (1 / 8))
     \<lparr>sample_rate_' = 20, hysteresis_time_ms_' = 150, smoother_' = 0,
       current_flag_' = False, pending_flag_' = False, counter_' = 0,
       hysteresis_samples_' = 3\<rparr> [1, 1, 1, 1] 4 = False"
  by (simp add: initial_gate_def gate_eval)

text \<open>
  The same for every one-pole smoother that starts at 0 and every input that stays
  at or below 1, as the output of \<^verbatim>\<open>BiasedScale\<close> does: as long as
  \<open>(1 - a) ^ n\<close> is above 1/2 the smoothed input is below 0.5 and the gate does not
  leave its initial state.
\<close>

lemma one_pole_lag:
  assumes a: "0 \<le> a" "a \<le> 1"
    and g: "initial_gate g" "smoother_' g \<le> 0"
    and xs: "\<And>i. i < length xs \<Longrightarrow> xs ! i \<le> 1"
    and slow: "1 / 2 < (1 - a) ^ length xs"
    and n: "n \<le> length xs"
  shows "initial_gate (gate_after (OnePoleSmoother_Process1 a) g xs n) \<and>
         smoother_' (gate_after (OnePoleSmoother_Process1 a) g xs n) \<le> 1 - (1 - a) ^ n"
  using n
proof (induction n)
  case 0
  then show ?case using g by (simp add: gate_after_0)
next
  case (Suc n)
  define G where "G = gate_after (OnePoleSmoother_Process1 a) g xs n"
  define y where "y = smoother_' G + a * (xs ! n - smoother_' G)"
  from Suc have n: "n < length xs" and IH: "initial_gate G" "smoother_' G \<le> 1 - (1 - a) ^ n"
    by (simp_all add: G_def)
  have "y = (1 - a) * smoother_' G + a * xs ! n" by (simp add: y_def algebra_simps)
  also have "\<dots> \<le> (1 - a) * (1 - (1 - a) ^ n) + a * 1"
    using a IH(2) xs [OF n] by (intro add_mono mult_left_mono) simp_all
  also have "\<dots> = 1 - (1 - a) ^ Suc n" by (simp add: algebra_simps)
  finally have y: "y \<le> 1 - (1 - a) ^ Suc n" .
  have "(1 - a) ^ length xs \<le> (1 - a) ^ Suc n"
    using a n by (intro power_decreasing) simp_all
  with slow y have lt: "y < 1 / 2" by simp
  have "gate_after (OnePoleSmoother_Process1 a) g xs (Suc n) =
          fst (Process (OnePoleSmoother_Process1 a) (xs ! n) G)"
    unfolding G_def by (rule gate_after_Suc [OF n])
  also have "\<dots> = G\<lparr>smoother_' := y\<rparr>"
    using IH(1) lt
    by (simp add: Process_def OnePoleSmoother_Process1_def Let_def y_def initial_gate_def)
  finally show ?case using IH(1) y by (simp add: initial_gate_def)
qed

text \<open>
  With the time constants of the application, 400 ms of smoothing and 150 ms of
  hysteresis, this holds at every sample rate: \<open>(1 - a) ^ n\<close> is at least
  \<open>exp (- 3/8)\<close>, which is above 1/2. With the input held at 1 from the start, the
  current flag is still false after \<^verbatim>\<open>hysteresis_samples_\<close> calls.
\<close>

lemma nat_floor_le:
  fixes z :: real
  assumes "0 \<le> z"
  shows "real (nat \<lfloor>z\<rfloor>) \<le> z"
proof -
  have "0 \<le> \<lfloor>z\<rfloor>" using assms by simp
  then have "real (nat \<lfloor>z\<rfloor>) = of_int \<lfloor>z\<rfloor>" by simp
  also have "\<dots> \<le> z" by (rule of_int_floor_le)
  finally show ?thesis .
qed

lemma configured_gate_lag:
  assumes sr: "0 < sample_rate"
    and xs: "\<And>i. i < length xs \<Longrightarrow> xs ! i \<le> 1"
    and len: "length xs =
      unat (hysteresis_samples_' (HysteresisSmoother_init (\<lambda>t r. 0) sample_rate 400 150))"
  shows "cur_at (OnePoleSmoother_Process1 (OnePoleSmoother_coeff 400 sample_rate))
           (HysteresisSmoother_init (\<lambda>t r. 0) sample_rate 400 150) xs (length xs) = False"
proof -
  define a where "a = OnePoleSmoother_coeff 400 sample_rate"
  define g where "g = HysteresisSmoother_init (\<lambda>t r. 0 :: real) sample_rate 400 150"
  define d where "d = 1 / (400 * 0.001 * sample_rate)"
  have d: "0 < d" using sr by (simp add: d_def)
  have a_eq: "1 - a = exp (- d)"
    by (simp add: a_def OnePoleSmoother_coeff_def d_def)
  have "exp (- d) \<le> 1" using d by simp
  then have a0: "0 \<le> a" using a_eq by linarith
  have "0 \<le> exp (- d)" by simp
  then have a1: "a \<le> 1" using a_eq by linarith
  have "length xs \<le> nat \<lfloor>150 * 0.001 * sample_rate\<rfloor>"
    unfolding len
    by (simp add: HysteresisSmoother_init_def size_t_of_float_def unat_of_nat)
  then have "real (length xs) \<le> real (nat \<lfloor>150 * 0.001 * sample_rate\<rfloor>)" by simp
  also have "\<dots> \<le> 150 * 0.001 * sample_rate"
    using sr by (intro nat_floor_le) simp
  finally have n: "real (length xs) \<le> 150 * 0.001 * sample_rate" .
  have "real (length xs) * d \<le> 3 / 8"
  proof -
    have "real (length xs) * d \<le> (150 * 0.001 * sample_rate) * d"
      using n d by (intro mult_right_mono) simp_all
    also have "\<dots> = 3 / 8" using sr by (simp add: d_def)
    finally show ?thesis .
  qed
  then have "1 + - (3 / 8) \<le> 1 + - (real (length xs) * d)" by simp
  also have "\<dots> \<le> exp (- (real (length xs) * d))" by (rule exp_ge_add_one_self)
  also have "\<dots> = exp (- d) ^ length xs"
    by (simp add: exp_of_nat_mult [symmetric])
  finally have slow: "1 / 2 < (1 - a) ^ length xs" unfolding a_eq by simp
  have "initial_gate g" unfolding g_def by (rule HysteresisSmoother_init_initial)
  moreover have "smoother_' g \<le> 0" by (simp add: g_def HysteresisSmoother_init_def)
  ultimately have "initial_gate (gate_after (OnePoleSmoother_Process1 a) g xs (length xs))"
    using one_pole_lag [OF a0 a1 _ _ xs slow, of g "length xs"] by simp
  then show ?thesis unfolding a_def g_def by (simp add: initial_gate_def)
qed

section \<open>Rounding to binary32\<close>

lemma powr_powi: "(2::real) powr (of_int k) = 2 powi k"
  by (simp add: powr_real_of_int power_int_def inverse_eq_divide power_one_over)

lemma fl32_exponent_eq:
  assumes "2 powi k \<le> \<bar>x\<bar>" "\<bar>x\<bar> < 2 powi (k + 1)" "- 126 \<le> k"
  shows "fl32_exponent x = k"
proof -
  have pos: "0 < \<bar>x\<bar>" using assms(1) zero_less_power_int [of "2::real" k] by linarith
  have "\<lfloor>log 2 \<bar>x\<bar>\<rfloor> = k"
    using assms(1,2) pos by (simp add: floor_log_eq_powr_iff powr_powi [symmetric])
  then show ?thesis using assms(3) by (simp add: fl32_exponent_def)
qed

lemma fl32_eval:
  assumes "2 powi k \<le> \<bar>x\<bar>" "\<bar>x\<bar> < 2 powi (k + 1)" "- 126 \<le> k"
  shows "fl32 x = of_int (rne (x / 2 powi (k - 23))) * 2 powi (k - 23)"
proof -
  have "0 < \<bar>x\<bar>" using assms(1) zero_less_power_int [of "2::real" k] by linarith
  then have "x \<noteq> 0" by simp
  then show ?thesis using fl32_exponent_eq [OF assms] by (simp add: fl32_def Let_def)
qed

lemma rne_cases: "rne m = \<lfloor>m\<rfloor> \<or> rne m = \<lfloor>m\<rfloor> + 1"
  by (simp add: rne_def Let_def)

lemma rne_err: "\<bar>of_int (rne m) - m\<bar> \<le> 1 / 2"
proof -
  have "of_int \<lfloor>m\<rfloor> \<le> m" "m < of_int \<lfloor>m\<rfloor> + 1" by linarith+
  then show ?thesis by (auto simp: rne_def Let_def)
qed

lemma rne_of_int: "rne (of_int z) = z"
  by (simp add: rne_def)

lemma rne_ge_floor: "\<lfloor>m\<rfloor> \<le> rne m"
  using rne_cases [of m] by auto

lemma rne_le_int:
  assumes "m \<le> of_int z"
  shows "rne m \<le> z"
proof (cases "m = of_int z")
  case True
  then show ?thesis by (simp add: rne_of_int)
next
  case False
  with assms have "m < of_int z" by simp
  then have "\<lfloor>m\<rfloor> < z" by (simp add: floor_less_iff)
  then show ?thesis using rne_cases [of m] by auto
qed

lemma rne_ge_int:
  assumes "of_int z \<le> m"
  shows "z \<le> rne m"
proof -
  have "z \<le> \<lfloor>m\<rfloor>" using assms by (simp add: le_floor_iff)
  then show ?thesis using rne_ge_floor [of m] by simp
qed

lemma fl32_exponent_upper:
  assumes "x \<noteq> 0"
  shows "\<bar>x\<bar> < 2 powi (fl32_exponent x + 1)"
proof -
  define k where "k = \<lfloor>log 2 \<bar>x\<bar>\<rfloor>"
  have pos: "0 < \<bar>x\<bar>" using assms by simp
  have "\<bar>x\<bar> < 2 powr (of_int k + 1)"
    using floor_log_eq_powr_iff [of "\<bar>x\<bar>" 2 k] pos by (simp add: k_def)
  then have "\<bar>x\<bar> < 2 powi (k + 1)"
    using powr_powi [of "k + 1"] by simp
  also have "2 powi (k + 1) \<le> (2::real) powi (fl32_exponent x + 1)"
    by (intro power_int_increasing) (simp_all add: fl32_exponent_def k_def)
  finally show ?thesis .
qed

lemma fl32_exponent_lower:
  assumes "2 powi (- 126) \<le> \<bar>x\<bar>"
  shows "2 powi (fl32_exponent x) \<le> \<bar>x\<bar>"
proof -
  define k where "k = \<lfloor>log 2 \<bar>x\<bar>\<rfloor>"
  have pos: "0 < \<bar>x\<bar>" using assms zero_less_power_int [of "2::real" "- 126"] by linarith
  have "2 powr (of_int k) \<le> \<bar>x\<bar>"
    using floor_log_eq_powr_iff [of "\<bar>x\<bar>" 2 k] pos by (simp add: k_def)
  then have k: "2 powi k \<le> \<bar>x\<bar>" by (simp add: powr_powi)
  show ?thesis
  proof (cases "- 126 \<le> k")
    case True
    then show ?thesis using k by (simp add: fl32_exponent_def k_def max_def)
  next
    case False
    then show ?thesis using assms by (simp add: fl32_exponent_def k_def max_def)
  qed
qed

lemma fl32_rel_err:
  assumes "2 powi (- 126) \<le> \<bar>x\<bar>"
  shows "\<bar>fl32 x - x\<bar> \<le> \<bar>x\<bar> / 2 ^ 24"
proof -
  define e where "e = fl32_exponent x"
  define q :: real where "q = 2 powi (e - 23)"
  have pos: "0 < \<bar>x\<bar>" using assms zero_less_power_int [of "2::real" "- 126"] by linarith
  then have nz: "x \<noteq> 0" by simp
  have q: "0 < q" by (simp add: q_def)
  have fl: "fl32 x = of_int (rne (x / q)) * q"
    using nz by (simp add: fl32_def Let_def q_def e_def)
  have "fl32 x - x = (of_int (rne (x / q)) - x / q) * q"
    using q by (simp add: fl algebra_simps)
  then have "\<bar>fl32 x - x\<bar> = \<bar>of_int (rne (x / q)) - x / q\<bar> * q"
    using q by (simp add: abs_mult)
  also have "\<dots> \<le> (1 / 2) * q"
    using q rne_err [of "x / q"] by (intro mult_right_mono) simp_all
  also have "(1 / 2) * q = 2 powi e / 2 ^ 24"
    by (simp add: q_def power_int_diff)
  also have "\<dots> \<le> \<bar>x\<bar> / 2 ^ 24"
    using fl32_exponent_lower [OF assms] by (simp add: e_def divide_right_mono)
  finally show ?thesis .
qed

lemma fl32_abs_bound:
  assumes "x \<noteq> 0"
  shows "\<bar>fl32 x\<bar> \<le> 2 powi (fl32_exponent x + 1)"
proof -
  define e where "e = fl32_exponent x"
  define q :: real where "q = 2 powi (e - 23)"
  have q: "0 < q" by (simp add: q_def)
  have fl: "fl32 x = of_int (rne (x / q)) * q"
    using assms by (simp add: fl32_def Let_def q_def e_def)
  have qe: "2 ^ 24 * q = 2 powi (e + 1)"
    by (simp add: q_def power_int_diff power_int_add)
  have "\<bar>x\<bar> < 2 powi (e + 1)" using fl32_exponent_upper [OF assms] by (simp add: e_def)
  then have "\<bar>x\<bar> < 2 ^ 24 * q" by (simp only: qe)
  then have a: "x < 2 ^ 24 * q" "- (2 ^ 24 * q) < x" by linarith+
  have "x / q < 2 ^ 24" using a(1) q by (simp add: pos_divide_less_eq)
  moreover have "- (2 ^ 24) < x / q" using a(2) q by (simp add: pos_less_divide_eq)
  ultimately have "x / q \<le> of_int (2 ^ 24)" "of_int (- (2 ^ 24)) \<le> x / q"
    by simp_all
  then have "rne (x / q) \<le> 2 ^ 24" "- (2 ^ 24) \<le> rne (x / q)"
    using rne_le_int rne_ge_int by blast+
  then have "\<bar>rne (x / q)\<bar> \<le> 2 ^ 24" by simp
  then have "\<bar>(of_int (rne (x / q)) :: real)\<bar> \<le> 2 ^ 24"
    by (metis of_int_abs of_int_le_iff of_int_numeral of_int_power)
  then have "\<bar>fl32 x\<bar> \<le> 2 ^ 24 * q"
    using q by (simp add: fl abs_mult mult_right_mono)
  then show ?thesis unfolding qe e_def .
qed

lemma fl32_nonneg:
  assumes "0 \<le> x"
  shows "0 \<le> fl32 x"
proof (cases "x = 0")
  case True
  then show ?thesis by (simp add: fl32_def)
next
  case False
  define q :: real where "q = 2 powi (fl32_exponent x - 23)"
  have q: "0 < q" by (simp add: q_def)
  have "of_int 0 \<le> x / q" using assms q by simp
  then have "0 \<le> rne (x / q)" by (rule rne_ge_int)
  then show ?thesis using False q by (simp add: fl32_def Let_def q_def [symmetric])
qed

lemma fl32_abs_le_1:
  assumes "\<bar>x\<bar> \<le> 1"
  shows "\<bar>fl32 x\<bar> \<le> 1"
proof -
  consider "x = 0" | "\<bar>x\<bar> = 1" | "x \<noteq> 0" "\<bar>x\<bar> < 1" using assms by linarith
  then show ?thesis
  proof cases
    case 1
    then show ?thesis by (simp add: fl32_def)
  next
    case 2
    then have "x = 1 \<or> x = - 1" by linarith
    moreover have "fl32 1 = 1" by (subst fl32_eval [of 0]) (simp_all add: rne_def Let_def)
    moreover have "fl32 (- 1) = - 1"
      by (subst fl32_eval [of 0]) (simp_all add: rne_def Let_def)
    ultimately show ?thesis by auto
  next
    case 3
    have "log 2 \<bar>x\<bar> < 0" using 3 by simp
    then have "\<lfloor>log 2 \<bar>x\<bar>\<rfloor> \<le> - 1" by linarith
    then have "fl32_exponent x + 1 \<le> 0" by (simp add: fl32_exponent_def)
    then have "(2::real) powi (fl32_exponent x + 1) \<le> 2 powi 0"
      by (intro power_int_increasing) simp_all
    then show ?thesis using fl32_abs_bound [OF 3(1)] by simp
  qed
qed

lemma fl32_tiny:
  assumes "0 \<le> x" "x < 2 powi (- 126)"
  shows "fl32 x < 1"
proof (cases "x = 0")
  case True
  then show ?thesis by (simp add: fl32_def)
next
  case False
  then have pos: "0 < x" using assms by simp
  have "\<not> (2 powr (of_int (- 126)) \<le> \<bar>x\<bar>)"
    using assms by (simp add: powr_powi del: of_int_minus)
  have "log 2 \<bar>x\<bar> < of_int (- 126)"
    using pos assms(2) powr_powi [of "- 126"] less_powr_iff [of 2 x "- 126"]
    by (simp add: log_less_iff del: of_int_minus)
  then have "\<lfloor>log 2 \<bar>x\<bar>\<rfloor> \<le> - 126" by linarith
  then have "fl32_exponent x = - 126" by (simp add: fl32_exponent_def)
  then have "\<bar>fl32 x\<bar> \<le> 2 powi (- 125)" using fl32_abs_bound [OF False] by simp
  moreover have "(2::real) powi (- 125) < 2 powi 0"
    by (intro power_int_strict_increasing) simp_all
  ultimately have "\<bar>fl32 x\<bar> < 1" by simp
  then show ?thesis by linarith
qed

lemma clamp01_simps:
  "clamp01 NaN = 1" "clamp01 PInf = 1" "clamp01 NInf = 0"
  "clamp01 (Finite x) = max 0 (min 1 x)"
  by (auto simp: clamp01_def fminf_def fmaxf_def)

lemma clamp01_range: "0 \<le> clamp01 value" "clamp01 value \<le> 1"
  by (cases "value"; simp add: clamp01_simps)+

lemma MapToSeries_mem:
  assumes "series \<noteq> []"
  shows "MapToSeries value series \<in> set series"
  using assms by (auto simp: MapToSeries_def Let_def)

lemma fl32_pos_bounds:
  assumes "2 powi (- 126) \<le> x"
  shows "x * (1 - 1 / 2 ^ 24) \<le> fl32 x" and "fl32 x \<le> x * (1 + 1 / 2 ^ 24)"
proof -
  have pos: "0 < x" using assms zero_less_power_int [of "2::real" "- 126"] by linarith
  then have "2 powi (- 126) \<le> \<bar>x\<bar>" using assms by simp
  from fl32_rel_err [OF this] pos have "\<bar>fl32 x - x\<bar> \<le> x / 2 ^ 24" by simp
  then have "fl32 x - x \<le> x / 2 ^ 24" "x - fl32 x \<le> x / 2 ^ 24" by linarith+
  then show "x * (1 - 1 / 2 ^ 24) \<le> fl32 x" and "fl32 x \<le> x * (1 + 1 / 2 ^ 24)"
    by (simp_all add: field_simps)
qed

lemma normal_ge: 
  fixes x :: real
  assumes "1 / 2 ^ 23 \<le> x"
  shows "2 powi (- 126) \<le> x"
proof -
  have "(2::real) powi (- 126) \<le> 2 powi (- 23)"
    by (intro power_int_increasing) simp_all
  also have "\<dots> = 1 / 2 ^ 23" by (simp add: power_int_def inverse_eq_divide power_one_over)
  finally show ?thesis using assms by simp
qed

lemma segment_bounds:
  fixes M :: nat
  assumes M: "2 \<le> M" "M \<le> 2 ^ 22"
  defines "s \<equiv> fl32 (1 / fl32 (real M))"
  shows "(1 - 1 / 2 ^ 24) / ((1 + 1 / 2 ^ 24) * real M) \<le> s"
    and "s \<le> (1 + 1 / 2 ^ 24) / ((1 - 1 / 2 ^ 24) * real M)"
proof -
  define a :: real where "a = 1 - 1 / 2 ^ 24"
  define b :: real where "b = 1 + 1 / 2 ^ 24"
  define M' where "M' = fl32 (real M)"
  define r where "r = 1 / M'"
  have a: "0 < a" and b: "0 < b" and b2: "b \<le> 2" by (simp_all add: a_def b_def)
  have "real 2 \<le> real M" "real M \<le> real (2 ^ 22)" using M by (simp_all only: of_nat_le_iff)
  then have Mr: "2 \<le> real M" "real M \<le> 2 ^ 22" by simp_all
  then have Mpos: "0 < real M" by simp
  have "2 powi (- 126) \<le> real M" using Mr by (intro normal_ge) simp
  from fl32_pos_bounds [OF this]
  have M'1: "real M * a \<le> M'" and M'2: "M' \<le> real M * b" by (simp_all add: M'_def a_def b_def)
  have M'pos: "0 < M'" using M'1 a Mpos by (meson less_le_trans mult_pos_pos)
  have Ma: "0 < real M * a" and Mb: "0 < real M * b" using Mpos a b by simp_all
  have r1: "1 / (real M * b) \<le> r" unfolding r_def
    using M'2 M'pos by (intro frac_le) simp_all
  have r2: "r \<le> 1 / (real M * a)" unfolding r_def
    using M'1 Ma by (intro frac_le) simp_all
  have rpos: "0 < r" using M'pos by (simp add: r_def)
  have "real M * b \<le> 2 ^ 22 * 2" using Mr b2 b by (intro mult_mono) simp_all
  then have "1 / (2 ^ 22 * 2) \<le> 1 / (real M * b)"
    using Mb by (intro frac_le) simp_all
  then have "1 / 2 ^ 23 \<le> r" using r1 by simp
  then have "2 powi (- 126) \<le> r" by (rule normal_ge)
  from fl32_pos_bounds [OF this]
  have s1: "r * a \<le> s" and s2: "s \<le> r * b" by (simp_all add: s_def r_def M'_def a_def b_def)
  have "a / (b * real M) = (1 / (real M * b)) * a" by simp
  also have "\<dots> \<le> r * a" using r1 a by (intro mult_right_mono) simp_all
  finally show "(1 - 1 / 2 ^ 24) / ((1 + 1 / 2 ^ 24) * real M) \<le> s"
    using s1 by (simp add: a_def b_def)
  have "s \<le> r * b" by (rule s2)
  also have "\<dots> \<le> (1 / (real M * a)) * b" using r2 b by (intro mult_right_mono) simp_all
  also have "\<dots> = b / (a * real M)" by simp
  finally show "s \<le> (1 + 1 / 2 ^ 24) / ((1 - 1 / 2 ^ 24) * real M)"
    by (simp add: a_def b_def)
qed

lemma quotient_bounds:
  fixes M :: nat and v :: real
  assumes M: "2 \<le> M" "M \<le> 2 ^ 22" and v: "0 \<le> v"
  defines "t \<equiv> v / fl32 (1 / fl32 (real M))"
  shows "0 \<le> fl32 t"
    and "2 powi (- 126) \<le> t \<Longrightarrow> v * real M / (1 + 1 / 2 ^ 22) \<le> fl32 t"
    and "2 powi (- 126) \<le> t \<Longrightarrow> fl32 t \<le> v * real M * (1 + 1 / 2 ^ 22)"
    and "t < 2 powi (- 126) \<Longrightarrow> fl32 t < 1"
    and "t < 2 powi (- 126) \<Longrightarrow> v * real M < 1"
proof -
  define a :: real where "a = 1 - 1 / 2 ^ 24"
  define b :: real where "b = 1 + 1 / 2 ^ 24"
  define s where "s = fl32 (1 / fl32 (real M))"
  have a: "0 < a" and b: "0 < b" by (simp_all add: a_def b_def)
  have Mpos: "0 < real M" using M by simp
  have s1: "a / (b * real M) \<le> s" and s2: "s \<le> b / (a * real M)"
    using segment_bounds [OF M] by (simp_all add: s_def a_def b_def)
  have lo: "0 < a / (b * real M)" using a b Mpos by simp
  then have spos: "0 < s" using s1 by linarith
  have t: "t = v * (1 / s)" by (simp add: t_def s_def)
  have tpos: "0 \<le> t" using v spos by (simp add: t)
  have "1 / (b / (a * real M)) \<le> 1 / s" using s2 spos by (intro frac_le) simp_all
  then have "a * real M / b \<le> 1 / s" by simp
  then have t_lo: "v * (a * real M / b) \<le> t" unfolding t using v by (rule mult_left_mono)
  have "1 / s \<le> 1 / (a / (b * real M))" using s1 lo by (intro frac_le) simp_all
  then have "1 / s \<le> b * real M / a" by simp
  then have t_hi: "t \<le> v * (b * real M / a)" unfolding t using v by (rule mult_left_mono)
  have vM: "0 \<le> v * real M" using v by simp
  show "0 \<le> fl32 t" using tpos by (rule fl32_nonneg)
  {
    assume n: "2 powi (- 126) \<le> t"
    note q = fl32_pos_bounds [OF n]
    have "v * real M / (1 + 1 / 2 ^ 22) = (v * real M) * (1 / (1 + 1 / 2 ^ 22))" by simp
    also have "\<dots> \<le> (v * real M) * (a * a / b)"
      using vM by (intro mult_left_mono) (simp_all add: a_def b_def)
    also have "\<dots> = v * (a * real M / b) * a" by simp
    also have "\<dots> \<le> t * a" using t_lo a by (intro mult_right_mono) simp_all
    also have "\<dots> \<le> fl32 t" using q(1) by (simp add: a_def)
    finally show "v * real M / (1 + 1 / 2 ^ 22) \<le> fl32 t" .
    have "fl32 t \<le> t * b" using q(2) by (simp add: b_def)
    also have "\<dots> \<le> v * (b * real M / a) * b" using t_hi b by (intro mult_right_mono) simp_all
    also have "\<dots> = (v * real M) * (b * b / a)" by simp
    also have "\<dots> \<le> (v * real M) * (1 + 1 / 2 ^ 22)"
      using vM by (intro mult_left_mono) (simp_all add: a_def b_def)
    finally show "fl32 t \<le> v * real M * (1 + 1 / 2 ^ 22)" .
  }
  {
    assume n: "t < 2 powi (- 126)"
    show "fl32 t < 1" using tpos n by (rule fl32_tiny)
    have "(2::real) powi (- 126) \<le> 2 powi (- 1)" by (intro power_int_increasing) simp_all
    then have h: "t < 1 / 2" using n by (simp add: power_int_minus inverse_eq_divide)
    have "v * real M = v * (a * real M / b) * (b / a)" using a b by simp
    also have "\<dots> \<le> t * (b / a)" using t_lo a b by (intro mult_right_mono) simp_all
    also have "\<dots> \<le> (1 / 2) * (b / a)" using h a b by (intro mult_right_mono) simp_all
    also have "\<dots> < 1" by (simp add: a_def b_def)
    finally show "v * real M < 1" .
  }
qed

section \<open>MapToSeries\<close>

lemma MapToSeries_index:
  assumes "2 \<le> length series"
  shows "MapToSeries value series =
           series ! min (length series - 1)
             (nat \<lfloor>fl32 (clamp01 value / fl32 (1 / fl32 (real (length series))))\<rfloor>)"
proof -
  have "series \<noteq> []" "length series \<noteq> 1" using assms by auto
  then show ?thesis
    by (auto simp: MapToSeries_def Let_def min_def intro!: arg_cong [where f = "nth series"])
qed

lemma MapToSeries_interior:
  assumes M: "2 \<le> length series" "length series \<le> 2 ^ 22"
    and j: "j < length series"
    and lo: "real j * (1 + 1 / 2 ^ 22) \<le> clamp01 value * real (length series)"
    and hi: "clamp01 value * real (length series) * (1 + 1 / 2 ^ 22) < real (Suc j)"
  shows "MapToSeries value series = series ! j"
proof -
  define v where "v = clamp01 value"
  define t where "t = v / fl32 (1 / fl32 (real (length series)))"
  have v: "0 \<le> v" by (simp add: v_def clamp01_range)
  note qb = quotient_bounds [OF M v, folded t_def]
  have "\<lfloor>fl32 t\<rfloor> = int j"
  proof (cases "2 powi (- 126) \<le> t")
    case True
    have "real j \<le> v * real (length series) / (1 + 1 / 2 ^ 22)"
      using lo by (simp add: v_def pos_le_divide_eq)
    then have "real j \<le> fl32 t" using qb(2) [OF True] by linarith
    moreover have "fl32 t < real j + 1" using qb(3) [OF True] hi by (simp add: v_def)
    ultimately show ?thesis by (simp add: floor_unique)
  next
    case False
    then have n: "t < 2 powi (- 126)" by simp
    have "real j * (1 + 1 / 2 ^ 22) < 1" using qb(5) [OF n] lo by (simp add: v_def)
    moreover have "real j \<le> real j * (1 + 1 / 2 ^ 22)" by simp
    ultimately have "real j < 1" by linarith
    then have "j = 0" by simp
    then show ?thesis using qb(1) qb(4) [OF n] by (simp add: floor_unique)
  qed
  then have "nat \<lfloor>fl32 t\<rfloor> = j" by simp
  then have "min (length series - 1) (nat \<lfloor>fl32 t\<rfloor>) = j" using j by simp
  then show ?thesis unfolding MapToSeries_index [OF M(1)] t_def v_def by simp
qed

lemma MapToSeries_top:
  assumes ne: "series \<noteq> []" and len: "length series \<le> 2 ^ 22"
    and one: "clamp01 value = 1"
  shows "MapToSeries value series = last series"
proof (cases "length series = 1")
  case True
  then show ?thesis using ne by (cases series) (auto simp: MapToSeries_def)
next
  case False
  with ne have M: "2 \<le> length series"
    by (cases series) (auto simp: Suc_le_eq numeral_2_eq_2)
  define t where "t = 1 / fl32 (1 / fl32 (real (length series)))"
  note qb = quotient_bounds [OF M len, of 1, folded t_def]
  have Mr: "2 \<le> real (length series)" using M by simp
  have "real (length series) \<le> real (2 ^ 22)" using len by (simp only: of_nat_le_iff)
  then have Mu: "real (length series) \<le> 2 ^ 22" by simp
  have n: "2 powi (- 126) \<le> t"
  proof (rule ccontr)
    assume "\<not> 2 powi (- 126) \<le> t"
    then have "1 * real (length series) < 1" using qb(5) by simp
    then show False using Mr by simp
  qed
  have "(real (length series) - 1) * (1 + 1 / 2 ^ 22) \<le> real (length series)"
    using Mu by (simp add: algebra_simps)
  then have "real (length series) - 1 \<le> 1 * real (length series) / (1 + 1 / 2 ^ 22)"
    by (simp add: pos_le_divide_eq)
  also have "\<dots> \<le> fl32 t" using qb(2) [OF _ n] by simp
  finally have "real (length series) - 1 \<le> fl32 t" .
  then have "real (length series - 1) \<le> fl32 t" using M by (simp add: of_nat_diff)
  then have "int (length series - 1) \<le> \<lfloor>fl32 t\<rfloor>" by (simp add: le_floor_iff)
  then have "length series - 1 \<le> nat \<lfloor>fl32 t\<rfloor>" by simp
  then have "min (length series - 1) (nat \<lfloor>fl32 t\<rfloor>) = length series - 1" by simp
  then show ?thesis using ne unfolding MapToSeries_index [OF M] t_def one
    by (simp add: last_conv_nth)
qed

lemma fl32_14: "fl32 14 = 14"
  by (subst fl32_eval [of 3]) (simp_all add: rne_def Let_def)

lemma fl32_1_14: "fl32 (1 / 14) = 9586981 / 2 ^ 27"
  by (subst fl32_eval [of "- 4"]) (simp_all add: rne_def Let_def)

lemma fl32_half_by_14: "\<lfloor>fl32 ((1 / 2) / (9586981 / 2 ^ 27))\<rfloor> = 6"
  by (subst fl32_eval [of 2]) (simp_all add: rne_def Let_def)

lemma fl32_10: "fl32 10 = 10"
  by (subst fl32_eval [of 3]) (simp_all add: rne_def Let_def)

lemma fl32_1_10: "fl32 (1 / 10) = 13421773 / 2 ^ 27"
  by (subst fl32_eval [of "- 4"]) (simp_all add: rne_def Let_def)

lemma fl32_07: "fl32 (7 / 10) = 11744051 / 2 ^ 24"
  by (subst fl32_eval [of "- 1"]) (simp_all add: rne_def Let_def)

lemma fl32_07_by_10: "\<lfloor>fl32 ((11744051 / 2 ^ 24) / (13421773 / 2 ^ 27))\<rfloor> = 7"
  by (subst fl32_eval [of 2]) (simp_all add: rne_def Let_def)

text \<open>
  C2, as stated, says that the entry returned is that of the bucket containing the
  clamped value. The index is the integer part of a quotient that is rounded twice,
  and on or next to a bucket boundary it can be another one. With 14 entries the
  value 0.5 lies in bucket 7, which starts at 7/14, and the entry returned is entry
  6; with 10 entries the binary32 value nearest to 0.7, which is below 0.7 and so in
  bucket 6, gets entry 7.
\<close>

theorem MapToSeries_bucket_counterexample:
  "(7 :: real) / 14 \<le> 1 / 2 \<and> (1 / 2 :: real) < 8 / 14 \<and>
   clamp01 (Finite (1 / 2)) = 1 / 2 \<and>
   MapToSeries (Finite (1 / 2)) [0, 1, 2, 3, 4, 5, 6, 7, 8, 9, 10, 11, 12, 13 :: real] = 6 \<and>
   (6 :: real) / 10 \<le> 11744051 / 2 ^ 24 \<and> (11744051 / 2 ^ 24 :: real) < 7 / 10 \<and>
   fl32 (7 / 10) = 11744051 / 2 ^ 24 \<and>
   clamp01 (Finite (11744051 / 2 ^ 24)) = 11744051 / 2 ^ 24 \<and>
   MapToSeries (Finite (11744051 / 2 ^ 24)) [0, 1, 2, 3, 4, 5, 6, 7, 8, 9 :: real] = 7"
proof -
  have a: "MapToSeries (Finite (1 / 2)) [0, 1, 2, 3, 4, 5, 6, 7, 8, 9, 10, 11, 12, 13 :: real] = 6"
    using fl32_half_by_14
    by (simp add: MapToSeries_def clamp01_simps fl32_14 fl32_1_14 del: floor_divide_eq_div_numeral)
  have b: "MapToSeries (Finite (11744051 / 2 ^ 24)) [0, 1, 2, 3, 4, 5, 6, 7, 8, 9 :: real] = 7"
    using fl32_07_by_10
    by (simp add: MapToSeries_def clamp01_simps fl32_10 fl32_1_10)
  show ?thesis using a b by (simp add: clamp01_simps fl32_07)
qed

text \<open>
  C2, as amended. \<^verbatim>\<open>MapToSeries\<close> gives 0 for the empty series and the entry of a
  one-entry series for every value. For a series of \<open>M \<ge> 2\<close> entries, with \<open>v\<close> the
  value clamped to \<open>[0, 1]\<close> (a NaN is clamped to 1), it gives the entry whose index is
  the integer part of the binary32 quotient of \<open>v\<close> by the binary32 \<open>1 / M\<close>, or the
  last entry if that index is \<open>M\<close> or more. For a series of at most \<open>2 ^ 22\<close> entries
  this is the entry of the bucket \<open>j\<close> that contains \<open>v\<close> whenever \<open>v\<close> keeps a relative
  distance of \<open>2 ^ -22\<close> from both ends of the bucket
  (\<open>j * (1 + 2 ^ -22) \<le> v * M\<close> and \<open>v * M * (1 + 2 ^ -22) < j + 1\<close>), and a clamped
  value of 1 gives the last entry. For every series that is not empty the result is
  an element of the series.
\<close>

theorem MapToSeries_buckets:
  "MapToSeries value ([] :: 'a::zero list) = 0 \<and>
   MapToSeries value [x] = x \<and>
   (2 \<le> length series \<longrightarrow>
      MapToSeries value series =
        series ! min (length series - 1)
          (nat \<lfloor>fl32 (clamp01 value / fl32 (1 / fl32 (real (length series))))\<rfloor>)) \<and>
   (2 \<le> length series \<and> length series \<le> 2 ^ 22 \<longrightarrow>
      (\<forall>j<length series.
          real j * (1 + 1 / 2 ^ 22) \<le> clamp01 value * real (length series) \<and>
          clamp01 value * real (length series) * (1 + 1 / 2 ^ 22) < real (Suc j) \<longrightarrow>
          MapToSeries value series = series ! j)) \<and>
   (series \<noteq> [] \<longrightarrow> MapToSeries value series \<in> set series) \<and>
   (series \<noteq> [] \<and> length series \<le> 2 ^ 22 \<and> clamp01 value = 1 \<longrightarrow>
      MapToSeries value series = last series) \<and>
   clamp01 (Finite y) = max 0 (min 1 y) \<and> clamp01 NaN = 1 \<and>
   clamp01 PInf = 1 \<and> clamp01 NInf = 0"
proof -
  have "MapToSeries value ([] :: 'a list) = 0" "MapToSeries value [x] = x"
    by (simp_all add: MapToSeries_def)
  then show ?thesis
    using MapToSeries_index [of series "value"] MapToSeries_interior [of series _ "value"]
      MapToSeries_mem [of series "value"] MapToSeries_top [of series "value"]
      clamp01_simps
    by blast
qed

theorem MapToSeries_buckets_witness:
  "2 \<le> length [2, 5, 7, 10, 12 :: real] \<and>
   length [2, 5, 7, 10, 12 :: real] \<le> 2 ^ 22 \<and>
   real 2 * (1 + 1 / 2 ^ 22)
     \<le> clamp01 (Finite (1 / 2)) * real (length [2, 5, 7, 10, 12 :: real]) \<and>
   clamp01 (Finite (1 / 2)) * real (length [2, 5, 7, 10, 12 :: real]) * (1 + 1 / 2 ^ 22)
     < real (Suc 2) \<and>
   MapToSeries (Finite (1 / 2)) [2, 5, 7, 10, 12 :: real] = 7 \<and>
   MapToSeries (Finite (1 / 2)) [2, 5, 7, 10, 12 :: real] \<in> set [2, 5, 7, 10, 12] \<and>
   MapToSeries (Finite 1) [2, 5, 7, 10, 12 :: real] = 12 \<and>
   MapToSeries NaN [2, 5, 7, 10, 12 :: real] = 12"
proof -
  note t = MapToSeries_buckets [of "Finite (1 / 2)" 0 "[2, 5, 7, 10, 12 :: real]" 0]
  have h: "2 \<le> length [2, 5, 7, 10, 12 :: real]" "length [2, 5, 7, 10, 12 :: real] \<le> 2 ^ 22"
    "real 2 * (1 + 1 / 2 ^ 22)
       \<le> clamp01 (Finite (1 / 2)) * real (length [2, 5, 7, 10, 12 :: real])"
    "clamp01 (Finite (1 / 2)) * real (length [2, 5, 7, 10, 12 :: real]) * (1 + 1 / 2 ^ 22)
       < real (Suc 2)"
    by (simp_all add: clamp01_simps)
  have "MapToSeries (Finite (1 / 2)) [2, 5, 7, 10, 12 :: real] = [2, 5, 7, 10, 12] ! 2"
    using t [THEN conjunct2, THEN conjunct2, THEN conjunct2, THEN conjunct1, rule_format, of 2] h
    by simp
  then have a: "MapToSeries (Finite (1 / 2)) [2, 5, 7, 10, 12 :: real] = 7" by simp
  have b: "MapToSeries (Finite (1 / 2)) [2, 5, 7, 10, 12 :: real] \<in> set [2, 5, 7, 10, 12]"
    using t [THEN conjunct2, THEN conjunct2, THEN conjunct2, THEN conjunct2, THEN conjunct1]
    by simp
  have "MapToSeries (Finite 1) [2, 5, 7, 10, 12 :: real] = last [2, 5, 7, 10, 12]"
    using MapToSeries_buckets [of "Finite 1" 0 "[2, 5, 7, 10, 12 :: real]" 0, THEN conjunct2,
        THEN conjunct2, THEN conjunct2, THEN conjunct2, THEN conjunct2, THEN conjunct1]
    by (simp add: clamp01_simps)
  then have c: "MapToSeries (Finite 1) [2, 5, 7, 10, 12 :: real] = 12" by simp
  have "MapToSeries NaN [2, 5, 7, 10, 12 :: real] = last [2, 5, 7, 10, 12]"
    using MapToSeries_buckets [of NaN 0 "[2, 5, 7, 10, 12 :: real]" 0, THEN conjunct2,
        THEN conjunct2, THEN conjunct2, THEN conjunct2, THEN conjunct2, THEN conjunct1]
    by (simp add: clamp01_simps)
  then have d: "MapToSeries NaN [2, 5, 7, 10, 12 :: real] = 12" by simp
  from h a b c d show ?thesis by blast
qed

section \<open>BiasedScale\<close>










section \<open>The per-sample pass\<close>

lemma control_values_short:
  assumes "length (neuralNetOutputs st) < kN_Params"
  shows "control_values E pitch_bias st = Inl OutOfBoundsRead"
  using assms by (simp add: control_values_def read_floats_def split: prod.splits)

lemma control_values_long:
  assumes "kN_Params \<le> length (neuralNetOutputs st)"
  shows "control_values E pitch_bias st =
           (let rb = smoother_Process1 E (pitchbias_smoother st) pitch_bias;
                sv = smoother_Process E (smoother st) (take kN_Params (neuralNetOutputs st));
                p = param_u (snd sv);
                gb = Process (smoother_Process1 E) (BiasedScale (which_shift p) (snd rb))
                       (smoother_pitchshift_switch st)
            in Inr (fst rb, fst sv, p, fst gb, snd gb))"
  using assms by (simp add: control_values_def read_floats_def Let_def split: prod.splits)

lemma control_values_Inr:
  assumes "control_values E pitch_bias st = Inr (pbs', sm', p, gate', smoothed_switch)"
  shows "kN_Params \<le> length (neuralNetOutputs st)"
    and "p = param_u (snd (smoother_Process E (smoother st)
                (take kN_Params (neuralNetOutputs st))))"
    and "(gate', smoothed_switch) =
           Process (smoother_Process1 E)
             (BiasedScale (which_shift p)
                (snd (smoother_Process1 E (pitchbias_smoother st) pitch_bias)))
             (smoother_pitchshift_switch st)"
proof -
  show k: "kN_Params \<le> length (neuralNetOutputs st)"
    using assms control_values_short [of st E pitch_bias] by (cases "kN_Params \<le> length (neuralNetOutputs st)") auto
  from assms show "p = param_u (snd (smoother_Process E (smoother st)
                (take kN_Params (neuralNetOutputs st))))"
    unfolding control_values_long [OF k] by (simp add: Let_def)
  from assms show "(gate', smoothed_switch) =
           Process (smoother_Process1 E)
             (BiasedScale (which_shift p)
                (snd (smoother_Process1 E (pitchbias_smoother st) pitch_bias)))
             (smoother_pitchshift_switch st)"
    unfolding control_values_long [OF k] by (auto simp: Let_def)
qed

lemma ProcessInline_short:
  assumes "length (neuralNetOutputs st) < kN_Params"
  shows "ProcessInline E pitch_bias x st = Inl OutOfBoundsRead"
  using control_values_short [OF assms] by (simp add: ProcessInline_def)

lemma ProcessInline_Inr:
  assumes "control_values E pitch_bias st = Inr (pbs', sm', p, gate', smoothed_switch)"
    and "pitch_mode E smoothed_switch p (pitchshifter_' st) (pitchshifter2_' st) =
           (ps1, ps2, mix_pitch1, mix_pitch2)"
    and "mono_mix E x (dl_' st) (wah_settings E p (wah_' st)) ps1 ps2 mix_pitch1 mix_pitch2
           (dcb st) = (dl', wah4, ps1', ps2', dcb', y)"
  shows "ProcessInline E pitch_bias x st =
           Inr (st\<lparr> dcb := dcb', pitchshifter_' := ps1', pitchshifter2_' := ps2',
                    wah_' := wah4, dl_' := dl', smoother := sm',
                    smoother_pitchshift_switch := gate', pitchbias_smoother := pbs' \<rparr>,
                \<lparr> L = tanhf y, R = tanhf y \<rparr>)"
  using assms by (simp add: ProcessInline_def Let_def)

lemma ProcessInline_long:
  assumes "kN_Params \<le> length (neuralNetOutputs st)"
  shows "\<exists>r. ProcessInline E pitch_bias x st = Inr r"
  unfolding ProcessInline_def control_values_long [OF assms]
  by (simp add: Let_def split: prod.splits)

lemma mono_mix_value:
  "snd (snd (snd (snd (snd (mono_mix E x dl wah ps1 ps2 mix_pitch1 mix_pitch2 dc))))) =
     (let y = fadd (L x) (R x);
          dly = snd (wah_Process E wah (snd (dl_play E dl y (kDLineTap E) 0)));
          shift1 = fmul (snd (ps_Process E ps1 dly)) (Finite mix_pitch1);
          shift2 = fmul (snd (ps_Process E ps2 dly)) (Finite mix_pitch2)
      in fadd y (fmul (snd (dcb_play E dc (fadd shift1 shift2) 0.995)) (Finite (1 / 2))))"
  by (simp add: mono_mix_def Let_def split: prod.splits)

lemma tanhf_NaN: "tanhf y = NaN \<longleftrightarrow> y = NaN"
  by (cases y) simp_all

lemma tanhf_bounded:
  assumes "y \<noteq> NaN"
  shows "\<exists>r. tanhf y = Finite r \<and> \<bar>r\<bar> \<le> 1"
proof (cases y)
  case (Finite x)
  have "\<bar>tanh x\<bar> \<le> 1" using tanh_real_lt_1 [of x] tanh_real_gt_neg1 [of x] by simp
  then have "\<bar>fl32 (tanh x)\<bar> \<le> 1" by (rule fl32_abs_le_1)
  then show ?thesis using Finite by simp
qed (use assms in simp_all)

lemma round_float_0: "round_float 0 = Finite 0"
  by (simp add: round_float_def fl32_def max_float_def)

lemmas bypass_eval = bypass_def bypass_app_def BettyAudioApp_init_def HysteresisSmoother_init_def
  control_values_def read_floats_def kN_Params_def param_u_def BiasedScale_def Process_def
  pitch_mode_def wah_settings_def mono_mix_def Let_def round_float_0

lemma bypass_control:
  "control_values bypass 0 bypass_app =
     Inr ((), (), param_u [0, 0, 0, 0, 0, 0, 0], smoother_pitchshift_switch bypass_app, False)"
  by (simp add: bypass_eval numeral_eq_Suc)

lemma bypass_mode:
  "pitch_mode bypass False (param_u [0, 0, 0, 0, 0, 0, 0]) (pitchshifter_' bypass_app)
     (pitchshifter2_' bypass_app) = (- 8, - 7, 1 / 2, 1 / 2)"
  by (simp add: bypass_eval)

lemma bypass_mix:
  "mono_mix bypass \<lparr>L = Finite 0, R = Finite 0\<rparr> (dl_' bypass_app)
     (wah_settings bypass (param_u [0, 0, 0, 0, 0, 0, 0]) (wah_' bypass_app))
     (- 8) (- 7) (1 / 2) (1 / 2) (dcb bypass_app) = ((), (), - 8, - 7, (), Finite 0)"
  by (simp add: bypass_eval)

lemma bypass_mix_NaN:
  "mono_mix bypass \<lparr>L = NaN, R = Finite 0\<rparr> (dl_' bypass_app)
     (wah_settings bypass (param_u [0, 0, 0, 0, 0, 0, 0]) (wah_' bypass_app))
     (- 8) (- 7) (1 / 2) (1 / 2) (dcb bypass_app) = ((), (), - 8, - 7, (), NaN)"
  by (simp add: bypass_eval)

lemma MapToSeries_one: "MapToSeries (Finite 1) [2, 5, 7, 10, 12 :: real] = 12"
  using MapToSeries_top [of "[2, 5, 7, 10, 12 :: real]" "Finite 1"]
  by (simp add: clamp01_simps)

lemma bypass_control_on:
  "control_values bypass (1 / 2) bypass_app_on =
     Inr ((), (), param_u [1, 1, 0, 0, 0, 0, 0], smoother_pitchshift_switch bypass_app_on, True)"
  by (simp add: bypass_app_on_def bypass_eval numeral_eq_Suc)

text \<open>
  C6. Let a pass have the control values \<open>p\<close>, the smoothed parameters, and
  \<open>smoothed_switch\<close>, the output that the gate returns in this pass for the biased
  switch parameter. If \<open>smoothed_switch\<close> is true, the pass is the signal path run
  with the first pitch shifter set to \<^verbatim>\<open>MapToSeries(shift, {2, 5, 7, 10, 12})\<close>, which
  is one of these five values, the second pitch shifter as it was, and the weights 1
  and 0. If it is false, the pass is the signal path run with the first pitch shifter
  set to \<open>-9\<close> if the smoothed \<^verbatim>\<open>shift\<close> exceeds 0.5 and to \<open>-8\<close> otherwise, the
  second set to \<open>-7\<close> whatever the smoothed \<^verbatim>\<open>shift2\<close> is, and both weights 0.5.
  In the signal path the outputs of the two pitch shifters are multiplied by the two
  weights and added before the DC blocker.
\<close>

theorem ProcessInline_pitch_modes:
  assumes "control_values E pitch_bias st = Inr (pbs', sm', p, gate', smoothed_switch)"
  shows "p = param_u (snd (smoother_Process E (smoother st)
                (take kN_Params (neuralNetOutputs st)))) \<and>
         (gate', smoothed_switch) =
           Process (smoother_Process1 E)
             (BiasedScale (which_shift p)
                (snd (smoother_Process1 E (pitchbias_smoother st) pitch_bias)))
             (smoother_pitchshift_switch st) \<and>
         MapToSeries (Finite (shift p)) [2, 5, 7, 10, 12 :: real] \<in> {2, 5, 7, 10, 12} \<and>
         (smoothed_switch \<longrightarrow>
            ProcessInline E pitch_bias x st =
              (let (dl', wah4, ps1', ps2', dcb', y) =
                     mono_mix E x (dl_' st) (wah_settings E p (wah_' st))
                       (ps_SetTransposition E (pitchshifter_' st)
                          (MapToSeries (Finite (shift p)) [2, 5, 7, 10, 12]))
                       (pitchshifter2_' st) 1 0 (dcb st)
               in Inr (st\<lparr> dcb := dcb', pitchshifter_' := ps1', pitchshifter2_' := ps2',
                           wah_' := wah4, dl_' := dl', smoother := sm',
                           smoother_pitchshift_switch := gate', pitchbias_smoother := pbs' \<rparr>,
                       \<lparr> L = tanhf y, R = tanhf y \<rparr>))) \<and>
         (\<not> smoothed_switch \<longrightarrow>
            ProcessInline E pitch_bias x st =
              (let (dl', wah4, ps1', ps2', dcb', y) =
                     mono_mix E x (dl_' st) (wah_settings E p (wah_' st))
                       (ps_SetTransposition E (pitchshifter_' st)
                          (if shift p > 1 / 2 then - 9 else - 8))
                       (ps_SetTransposition E (pitchshifter2_' st) (- 7))
                       (1 / 2) (1 / 2) (dcb st)
               in Inr (st\<lparr> dcb := dcb', pitchshifter_' := ps1', pitchshifter2_' := ps2',
                           wah_' := wah4, dl_' := dl', smoother := sm',
                           smoother_pitchshift_switch := gate', pitchbias_smoother := pbs' \<rparr>,
                       \<lparr> L = tanhf y, R = tanhf y \<rparr>))) \<and>
         snd (snd (snd (snd (snd (mono_mix E x dl wah ps1 ps2 mix_pitch1 mix_pitch2 dc))))) =
           (let y = fadd (L x) (R x);
                dly = snd (wah_Process E wah (snd (dl_play E dl y (kDLineTap E) 0)));
                shift1 = fmul (snd (ps_Process E ps1 dly)) (Finite mix_pitch1);
                shift2 = fmul (snd (ps_Process E ps2 dly)) (Finite mix_pitch2)
            in fadd y (fmul (snd (dcb_play E dc (fadd shift1 shift2) 0.995)) (Finite (1 / 2))))"
proof -
  note c = control_values_Inr [OF assms]
  have m: "MapToSeries (Finite (shift p)) [2, 5, 7, 10, 12 :: real] \<in> set [2, 5, 7, 10, 12]"
    by (rule MapToSeries_mem) simp
  have a: "ProcessInline E pitch_bias x st =
              (let (dl', wah4, ps1', ps2', dcb', y) =
                     mono_mix E x (dl_' st) (wah_settings E p (wah_' st))
                       (ps_SetTransposition E (pitchshifter_' st)
                          (MapToSeries (Finite (shift p)) [2, 5, 7, 10, 12]))
                       (pitchshifter2_' st) 1 0 (dcb st)
               in Inr (st\<lparr> dcb := dcb', pitchshifter_' := ps1', pitchshifter2_' := ps2',
                           wah_' := wah4, dl_' := dl', smoother := sm',
                           smoother_pitchshift_switch := gate', pitchbias_smoother := pbs' \<rparr>,
                       \<lparr> L = tanhf y, R = tanhf y \<rparr>))"
    if smoothed_switch
    using that assms by (simp add: ProcessInline_def pitch_mode_def Let_def)
  have b: "ProcessInline E pitch_bias x st =
              (let (dl', wah4, ps1', ps2', dcb', y) =
                     mono_mix E x (dl_' st) (wah_settings E p (wah_' st))
                       (ps_SetTransposition E (pitchshifter_' st)
                          (if shift p > 1 / 2 then - 9 else - 8))
                       (ps_SetTransposition E (pitchshifter2_' st) (- 7))
                       (1 / 2) (1 / 2) (dcb st)
               in Inr (st\<lparr> dcb := dcb', pitchshifter_' := ps1', pitchshifter2_' := ps2',
                           wah_' := wah4, dl_' := dl', smoother := sm',
                           smoother_pitchshift_switch := gate', pitchbias_smoother := pbs' \<rparr>,
                       \<lparr> L = tanhf y, R = tanhf y \<rparr>))"
    if "\<not> smoothed_switch"
    using that assms by (simp add: ProcessInline_def pitch_mode_def Let_def)
  from c(2) c(3) m a b mono_mix_value [of E x dl wah ps1 ps2 mix_pitch1 mix_pitch2 dc]
  show ?thesis by simp
qed

theorem ProcessInline_pitch_modes_witness:
  "control_values bypass (1 / 2) bypass_app_on =
     Inr ((), (), param_u [1, 1, 0, 0, 0, 0, 0], smoother_pitchshift_switch bypass_app_on, True) \<and>
   shift (param_u [1, 1, 0, 0, 0, 0, 0]) = 1 \<and>
   map_sum id (\<lambda>r. (pitchshifter_' (fst r), pitchshifter2_' (fst r), snd r))
     (ProcessInline bypass (1 / 2) \<lparr>L = Finite 0, R = Finite 0\<rparr> bypass_app_on) =
     Inr (12, 0, \<lparr>L = Finite 0, R = Finite 0\<rparr>) \<and>
   control_values bypass 0 bypass_app =
     Inr ((), (), param_u [0, 0, 0, 0, 0, 0, 0], smoother_pitchshift_switch bypass_app, False) \<and>
   map_sum id (\<lambda>r. (pitchshifter_' (fst r), pitchshifter2_' (fst r), snd r))
     (ProcessInline bypass 0 \<lparr>L = Finite 0, R = Finite 0\<rparr> bypass_app) =
     Inr (- 8, - 7, \<lparr>L = Finite 0, R = Finite 0\<rparr>)"
proof -
  note a = ProcessInline_pitch_modes [OF bypass_control_on,
      of "\<lparr>L = Finite 0, R = Finite 0\<rparr>", THEN conjunct2, THEN conjunct2, THEN conjunct2,
      THEN conjunct1, rule_format, OF TrueI]
  have on: "map_sum id (\<lambda>r. (pitchshifter_' (fst r), pitchshifter2_' (fst r), snd r))
     (ProcessInline bypass (1 / 2) \<lparr>L = Finite 0, R = Finite 0\<rparr> bypass_app_on) =
     Inr (12, 0, \<lparr>L = Finite 0, R = Finite 0\<rparr>)"
    unfolding a
    by (simp add: bypass_app_on_def bypass_eval MapToSeries_one fl32_def)
  note b = ProcessInline_pitch_modes [OF bypass_control,
      of "\<lparr>L = Finite 0, R = Finite 0\<rparr>", THEN conjunct2, THEN conjunct2, THEN conjunct2,
      THEN conjunct2, THEN conjunct1, rule_format]
  have off: "map_sum id (\<lambda>r. (pitchshifter_' (fst r), pitchshifter2_' (fst r), snd r))
     (ProcessInline bypass 0 \<lparr>L = Finite 0, R = Finite 0\<rparr> bypass_app) =
     Inr (- 8, - 7, \<lparr>L = Finite 0, R = Finite 0\<rparr>)"
    using b by (simp add: bypass_eval fl32_def)
  have s: "shift (param_u [1, 1, 0, 0, 0, 0, 0]) = 1" by (simp add: param_u_def)
  from bypass_control_on s on bypass_control off show ?thesis by blast
qed

text \<open>
  C8, as stated, fails for a NaN sample: the sum of the two channels is NaN, it stays
  NaN through the mix, \<^verbatim>\<open>tanhf\<close> of NaN is NaN, and NaN is not bounded by 1. And for
  a state whose stored vector has fewer than \<^verbatim>\<open>kN_Params\<close> entries the pass reads
  out of bounds and no sample is defined.
\<close>

theorem ProcessInline_NaN_counterexample:
  "map_sum id snd (ProcessInline bypass 0 \<lparr>L = NaN, R = Finite 0\<rparr> bypass_app) =
     Inr \<lparr>L = NaN, R = NaN\<rparr> \<and>
   ProcessInline bypass 0 \<lparr>L = Finite 0, R = Finite 0\<rparr> (ProcessParams [] bypass_app) =
     Inl OutOfBoundsRead"
proof -
  have "ProcessInline bypass 0 \<lparr>L = NaN, R = Finite 0\<rparr> bypass_app =
     Inr (bypass_app\<lparr> dcb := (), pitchshifter_' := - 8, pitchshifter2_' := - 7,
                 wah_' := (), dl_' := (), smoother := (),
                 smoother_pitchshift_switch := smoother_pitchshift_switch bypass_app,
                 pitchbias_smoother := () \<rparr>,
          \<lparr> L = tanhf NaN, R = tanhf NaN \<rparr>)"
    by (rule ProcessInline_Inr [OF bypass_control bypass_mode bypass_mix_NaN])
  moreover have "ProcessInline bypass 0 \<lparr>L = Finite 0, R = Finite 0\<rparr>
      (ProcessParams [] bypass_app) = Inl OutOfBoundsRead"
    by (rule ProcessInline_short) (simp add: ProcessParams_def kN_Params_def)
  ultimately show ?thesis by simp
qed

text \<open>
  C8, as amended. For every state whose stored vector has at least \<^verbatim>\<open>kN_Params\<close>
  entries the control values of the pass exist. Then, for every input sample and
  every value of the bias, the pass returns a sample whose two channels are both
  \<^verbatim>\<open>tanhf(y)\<close>, where \<open>y\<close> is the mono mix: the sum of the two input channels plus
  half of the DC-blocked sum of the two weighted pitch-shifter outputs. If \<open>y\<close> is not
  NaN, the channels are a finite value of magnitude at most 1; if \<open>y\<close> is NaN, both
  channels are NaN.
\<close>

theorem ProcessInline_output_bounded:
  "(kN_Params \<le> length (neuralNetOutputs st) \<longrightarrow>
      (\<exists>pbs' sm' p gate' smoothed_switch.
          control_values E pitch_bias st = Inr (pbs', sm', p, gate', smoothed_switch))) \<and>
   (control_values E pitch_bias st = Inr (pbs', sm', p, gate', smoothed_switch) \<and>
    pitch_mode E smoothed_switch p (pitchshifter_' st) (pitchshifter2_' st) =
      (ps1, ps2, mix_pitch1, mix_pitch2) \<and>
    mono_mix E x (dl_' st) (wah_settings E p (wah_' st)) ps1 ps2 mix_pitch1 mix_pitch2 (dcb st) =
      (dl', wah4, ps1', ps2', dcb', y) \<longrightarrow>
      ProcessInline E pitch_bias x st =
        Inr (st\<lparr> dcb := dcb', pitchshifter_' := ps1', pitchshifter2_' := ps2',
                 wah_' := wah4, dl_' := dl', smoother := sm',
                 smoother_pitchshift_switch := gate', pitchbias_smoother := pbs' \<rparr>,
             \<lparr> L = tanhf y, R = tanhf y \<rparr>) \<and>
      y = (let m = fadd (L x) (R x);
               dly = snd (wah_Process E (wah_settings E p (wah_' st))
                            (snd (dl_play E (dl_' st) m (kDLineTap E) 0)));
               shift1 = fmul (snd (ps_Process E ps1 dly)) (Finite mix_pitch1);
               shift2 = fmul (snd (ps_Process E ps2 dly)) (Finite mix_pitch2)
           in fadd m (fmul (snd (dcb_play E (dcb st) (fadd shift1 shift2) 0.995))
                        (Finite (1 / 2)))) \<and>
      (y = NaN \<longrightarrow> tanhf y = NaN) \<and>
      (y \<noteq> NaN \<longrightarrow> (\<exists>r. tanhf y = Finite r \<and> \<bar>r\<bar> \<le> 1)))"
proof -
  have e: "\<exists>pbs' sm' p gate' smoothed_switch.
          control_values E pitch_bias st = Inr (pbs', sm', p, gate', smoothed_switch)"
    if "kN_Params \<le> length (neuralNetOutputs st)"
    unfolding control_values_long [OF that] by (simp add: Let_def)
  have r: "ProcessInline E pitch_bias x st =
        Inr (st\<lparr> dcb := dcb', pitchshifter_' := ps1', pitchshifter2_' := ps2',
                 wah_' := wah4, dl_' := dl', smoother := sm',
                 smoother_pitchshift_switch := gate', pitchbias_smoother := pbs' \<rparr>,
             \<lparr> L = tanhf y, R = tanhf y \<rparr>) \<and>
      y = (let m = fadd (L x) (R x);
               dly = snd (wah_Process E (wah_settings E p (wah_' st))
                            (snd (dl_play E (dl_' st) m (kDLineTap E) 0)));
               shift1 = fmul (snd (ps_Process E ps1 dly)) (Finite mix_pitch1);
               shift2 = fmul (snd (ps_Process E ps2 dly)) (Finite mix_pitch2)
           in fadd m (fmul (snd (dcb_play E (dcb st) (fadd shift1 shift2) 0.995))
                        (Finite (1 / 2))))"
    if c: "control_values E pitch_bias st = Inr (pbs', sm', p, gate', smoothed_switch)"
      and m: "pitch_mode E smoothed_switch p (pitchshifter_' st) (pitchshifter2_' st) =
        (ps1, ps2, mix_pitch1, mix_pitch2)"
      and x: "mono_mix E x (dl_' st) (wah_settings E p (wah_' st)) ps1 ps2
          mix_pitch1 mix_pitch2 (dcb st) = (dl', wah4, ps1', ps2', dcb', y)"
    using ProcessInline_Inr [OF c m x]
      mono_mix_value [of E x "dl_' st" "wah_settings E p (wah_' st)" ps1 ps2
        mix_pitch1 mix_pitch2 "dcb st"]
    unfolding x by simp
  have t: "y = NaN \<longrightarrow> tanhf y = NaN" "y \<noteq> NaN \<longrightarrow> (\<exists>r. tanhf y = Finite r \<and> \<bar>r\<bar> \<le> 1)"
    using tanhf_bounded [of y] by auto
  from e r t show ?thesis by blast
qed

theorem ProcessInline_output_bounded_witness:
  "kN_Params \<le> length (neuralNetOutputs bypass_app) \<and>
   control_values bypass 0 bypass_app =
     Inr ((), (), param_u [0, 0, 0, 0, 0, 0, 0], smoother_pitchshift_switch bypass_app, False) \<and>
   pitch_mode bypass False (param_u [0, 0, 0, 0, 0, 0, 0]) (pitchshifter_' bypass_app)
     (pitchshifter2_' bypass_app) = (- 8, - 7, 1 / 2, 1 / 2) \<and>
   mono_mix bypass \<lparr>L = Finite 0, R = Finite 0\<rparr> (dl_' bypass_app)
     (wah_settings bypass (param_u [0, 0, 0, 0, 0, 0, 0]) (wah_' bypass_app))
     (- 8) (- 7) (1 / 2) (1 / 2) (dcb bypass_app) = ((), (), - 8, - 7, (), Finite 0) \<and>
   Finite 0 \<noteq> NaN \<and>
   map_sum id snd (ProcessInline bypass 0 \<lparr>L = Finite 0, R = Finite 0\<rparr> bypass_app) =
     Inr \<lparr>L = tanhf (Finite 0), R = tanhf (Finite 0)\<rparr> \<and>
   (\<exists>r. tanhf (Finite 0) = Finite r \<and> \<bar>r\<bar> \<le> 1)"
proof -
  have k: "kN_Params \<le> length (neuralNetOutputs bypass_app)"
    by (simp add: bypass_app_def BettyAudioApp_init_def)
  note t = ProcessInline_output_bounded [of bypass_app bypass 0 "()" "()"
      "param_u [0, 0, 0, 0, 0, 0, 0]" "smoother_pitchshift_switch bypass_app" False
      "- 8" "- 7" "1 / 2" "1 / 2" "\<lparr>L = Finite 0, R = Finite 0\<rparr>" "()" "()" "- 8" "- 7" "()"
      "Finite 0", THEN conjunct2, rule_format, OF conjI [OF bypass_control conjI [OF bypass_mode bypass_mix]]]
  have "map_sum id snd (ProcessInline bypass 0 \<lparr>L = Finite 0, R = Finite 0\<rparr> bypass_app) =
     Inr \<lparr>L = tanhf (Finite 0), R = tanhf (Finite 0)\<rparr>"
    using t [THEN conjunct1] by simp
  moreover have "\<exists>r. tanhf (Finite 0) = Finite r \<and> \<bar>r\<bar> \<le> 1"
    using t [THEN conjunct2, THEN conjunct2, THEN conjunct2] by blast
  ultimately show ?thesis using k bypass_control bypass_mode bypass_mix by simp
qed

lemma BettyAudioApp_init_in_bounds:
  "\<exists>r. ProcessInline E pitch_bias x (BettyAudioApp_init E mk dcb0 ps0 wah0 dl0) = Inr r"
  using ProcessInline_long [of "BettyAudioApp_init E mk dcb0 ps0 wah0 dl0" E pitch_bias x]
  by (auto simp: BettyAudioApp_init_def)

text \<open>
  C10. \<^verbatim>\<open>kN_Params\<close> is 7. \<^verbatim>\<open>ProcessParams\<close> stores the vector it is given,
  whatever its length, and the last call wins. The pass that follows reads 7 floats
  from the buffer of that vector: it stays within the buffer if and only if the
  vector has at least 7 entries, and reads out of bounds otherwise.
\<close>

theorem ProcessParams_unchecked_length:
  "kN_Params = 7 \<and>
   neuralNetOutputs (ProcessParams params st) = params \<and>
   ProcessParams params (ProcessParams params0 st) = ProcessParams params st \<and>
   ((\<exists>r. ProcessInline E pitch_bias x (ProcessParams params st) = Inr r)
      \<longleftrightarrow> 7 \<le> length params) \<and>
   (ProcessInline E pitch_bias x (ProcessParams params st) = Inl OutOfBoundsRead
      \<longleftrightarrow> length params < 7)"
proof -
  have k: "kN_Params = 7" by (simp add: kN_Params_def)
  have s: "neuralNetOutputs (ProcessParams params st) = params"
    "ProcessParams params (ProcessParams params0 st) = ProcessParams params st"
    by (simp_all add: ProcessParams_def)
  have a: "\<exists>r. ProcessInline E pitch_bias x (ProcessParams params st) = Inr r"
    if "7 \<le> length params"
    using ProcessInline_long [of "ProcessParams params st" E pitch_bias x] that s k by auto
  have b: "ProcessInline E pitch_bias x (ProcessParams params st) = Inl OutOfBoundsRead"
    if "length params < 7"
    using ProcessInline_short [of "ProcessParams params st" E pitch_bias x] that s k by simp
  have "(\<exists>r. ProcessInline E pitch_bias x (ProcessParams params st) = Inr r)
          \<longleftrightarrow> 7 \<le> length params"
    using a b by (cases "7 \<le> length params") auto
  moreover have "ProcessInline E pitch_bias x (ProcessParams params st) = Inl OutOfBoundsRead
          \<longleftrightarrow> length params < 7"
    using a b by (cases "7 \<le> length params") auto
  ultimately show ?thesis using k s by blast
qed

end
